(* ===== verification/Prelude.thy ===== *)
theory Prelude
  imports Main "HOL-Library.Word" "HOL-Library.AList"
begin

text \<open>
  The vocabulary the component theories share: the rule collections of the development,
  bytes and Go strings, the big-endian codecs of \<open>encoding/binary\<close>, decimal printing,
  a few list facts, and two small interfaces as locales: a transition system with an
  invariant (used by the relay server and by the signal server), and a self-delimiting
  byte codec (used by the frame protocol and by the relay handshake).
\<close>

unbundle bit_operations_syntax

section \<open>Rule collections\<close>

named_theorems wire \<open>facts that evaluate the byte codecs\<close>
named_theorems conn_simps \<open>frame and update facts of the connection model\<close>
named_theorems step_defs \<open>definitions of the atomic steps of a state machine\<close>

section \<open>Lists\<close>

lemma take_prefix_append [simp]: "k = length xs \<Longrightarrow> take k (xs @ ys) = xs"
  by simp

lemma drop_prefix_append [simp]: "k = length xs \<Longrightarrow> drop k (xs @ ys) = ys"
  by simp

lemma nth_append_left: "i < length xs \<Longrightarrow> (xs @ ys) ! i = xs ! i"
  by (simp add: nth_append)

lemma split_at: "k \<le> length xs \<Longrightarrow> \<exists>ys zs. xs = ys @ zs \<and> length ys = k"
  by (metis append_take_drop_id length_take min.absorb2)

section \<open>Go maps\<close>

text \<open>
  The interface of a Go map as the servers use it: lookup, assignment, \<open>delete\<close> and \<open>len\<close>.
  It is implemented by association lists without repeated keys; a \<open>range\<close> loop walks the
  list (Go leaves the order open, and no loop of the source depends on it).
\<close>

locale go_map =
  fixes gempty :: "'m" and gget :: "'m \<Rightarrow> 'k \<Rightarrow> 'v option" and gput :: "'k \<Rightarrow> 'v \<Rightarrow> 'm \<Rightarrow> 'm"
    and gdel :: "'k \<Rightarrow> 'm \<Rightarrow> 'm" and glen :: "'m \<Rightarrow> nat" and gok :: "'m \<Rightarrow> bool"
  assumes get_empty: "gget gempty = Map.empty"
    and get_put: "gget (gput k v m) = (gget m)(k \<mapsto> v)"
    and get_del: "gget (gdel k m) = (gget m)(k := None)"
    and len_empty: "glen gempty = 0"
    and len_put: "gok m \<Longrightarrow> glen (gput k v m) = (if gget m k = None then Suc (glen m) else glen m)"
    and len_del: "gok m \<Longrightarrow> glen (gdel k m) = (if gget m k = None then glen m else glen m - 1)"
    and ok_empty: "gok gempty"
    and ok_put: "gok m \<Longrightarrow> gok (gput k v m)"
    and ok_del: "gok m \<Longrightarrow> gok (gdel k m)"
begin

text \<open>A table that checks its size before it admits a new key stays within its bound.\<close>

lemma put_bounded:
  "gok m \<Longrightarrow> glen m \<le> n \<Longrightarrow> gget m k = None \<longrightarrow> glen m < n \<Longrightarrow> glen (gput k v m) \<le> n"
  by (auto simp: len_put)

lemma del_bounded: "gok m \<Longrightarrow> glen m \<le> n \<Longrightarrow> glen (gdel k m) \<le> n"
  by (cases "gget m k = None") (simp_all add: len_del)

lemma get_put_same: "gget (gput k v m) k = Some v"
  by (simp add: get_put)

lemma get_del_other: "j \<noteq> k \<Longrightarrow> gget (gdel k m) j = gget m j"
  by (simp add: get_del)

end

type_synonym ('k, 'v) gomap = "('k \<times> 'v) list"

definition gomap_ok :: "('k, 'v) gomap \<Rightarrow> bool" where
  "gomap_ok m \<longleftrightarrow> distinct (map fst m)"

lemma map_of_None_keys: "map_of m k = None \<longleftrightarrow> k \<notin> set (map fst m)"
  by (simp add: map_of_eq_None_iff)

lemma length_AList_update:
  "length (AList.update k v m) = (if map_of m k = None then Suc (length m) else length m)"
  using arg_cong [OF AList.update_keys [of k v m], of length]
  by (simp add: map_of_None_keys split: if_splits)

lemma length_AList_delete:
  assumes "distinct (map fst m)"
  shows "length (AList.delete k m) = (if map_of m k = None then length m else length m - 1)"
  using arg_cong [OF AList.delete_keys [of k m], of length] assms
  by (simp add: map_of_None_keys length_remove1 flip: distinct_remove1_removeAll)

interpretation gm: go_map "[]" map_of AList.update AList.delete length gomap_ok
  by unfold_locales
    (simp_all add: gomap_ok_def AList.update_conv' AList.delete_conv' length_AList_update length_AList_delete
      AList.distinct_update AList.distinct_delete)

lemmas gomap_simps [simp] = gm.get_put gm.get_del

section \<open>Bytes and strings\<close>

text \<open>
  A Go \<open>[]byte\<close> is a list of 8-bit words. A Go \<open>string\<close> is a sequence of bytes: it is
  modelled as an Isabelle \<open>string\<close>, whose characters are the 256 byte values.
\<close>

type_synonym byte = "8 word"

definition byte_of_char :: "char \<Rightarrow> byte" where
  "byte_of_char c = word_of_nat (of_char c)"

definition char_of_byte :: "byte \<Rightarrow> char" where
  "char_of_byte b = char_of (unat b)"

definition bytes_of_string :: "string \<Rightarrow> byte list" where
  "bytes_of_string s = map byte_of_char s"

definition string_of_bytes :: "byte list \<Rightarrow> string" where
  "string_of_bytes bs = map char_of_byte bs"

lemma char_of_byte_of_char [simp]: "char_of_byte (byte_of_char c) = c"
proof -
  have "(of_char c :: nat) < 256" by simp
  then have "unat (word_of_nat (of_char c) :: byte) = of_char c"
    by (simp add: unat_of_nat)
  then show ?thesis by (simp add: char_of_byte_def byte_of_char_def)
qed

lemma byte_of_char_of_byte [simp]: "byte_of_char (char_of_byte b) = b"
proof -
  have "unat b < 256" using unsigned_less [of b] by simp
  then show ?thesis by (simp add: char_of_byte_def byte_of_char_def)
qed

lemma string_of_bytes_of_string [simp]: "string_of_bytes (bytes_of_string s) = s"
  by (simp add: bytes_of_string_def string_of_bytes_def comp_def)

lemma bytes_of_string_of_bytes [simp]: "bytes_of_string (string_of_bytes bs) = bs"
  by (simp add: bytes_of_string_def string_of_bytes_def comp_def)

lemma length_bytes_of_string [simp]: "length (bytes_of_string s) = length s"
  by (simp add: bytes_of_string_def)

lemma length_string_of_bytes [simp]: "length (string_of_bytes bs) = length bs"
  by (simp add: string_of_bytes_def)

lemma bytes_of_string_inject [simp]: "bytes_of_string s = bytes_of_string t \<longleftrightarrow> s = t"
  by (metis string_of_bytes_of_string)

lemma bytes_of_string_Nil [simp]: "bytes_of_string [] = []"
  by (simp add: bytes_of_string_def)

section \<open>Big-endian integers\<close>

text \<open>
  \<open>binary.BigEndian.PutUint16\<close>, \<open>Uint16\<close>, \<open>PutUint32\<close> and \<open>Uint32\<close>, with the shifts
  and truncations of the library. The readers take the bytes they use; the callers slice.
\<close>

definition put_uint16 :: "16 word \<Rightarrow> byte list" where
  "put_uint16 v = [ucast (drop_bit 8 v), ucast v]"

definition get_uint16 :: "byte list \<Rightarrow> 16 word" where
  "get_uint16 b = ucast (b ! 1) OR push_bit 8 (ucast (b ! 0))"

definition put_uint32 :: "32 word \<Rightarrow> byte list" where
  "put_uint32 v = [ucast (drop_bit 24 v), ucast (drop_bit 16 v), ucast (drop_bit 8 v), ucast v]"

definition get_uint32 :: "byte list \<Rightarrow> 32 word" where
  "get_uint32 b = ucast (b ! 3) OR push_bit 8 (ucast (b ! 2)) OR push_bit 16 (ucast (b ! 1))
     OR push_bit 24 (ucast (b ! 0))"

lemma length_put_uint16 [simp]: "length (put_uint16 v) = 2"
  by (simp add: put_uint16_def)

lemma length_put_uint32 [simp]: "length (put_uint32 v) = 4"
  by (simp add: put_uint32_def)

lemma join16: "ucast (ucast v :: byte) OR push_bit 8 (ucast (ucast (drop_bit 8 v) :: byte)) = (v :: 16 word)"
  by (rule bit_word_eqI) (auto simp: bit_simps)

lemma join32:
  "ucast (ucast v :: byte) OR push_bit 8 (ucast (ucast (drop_bit 8 v) :: byte))
     OR push_bit 16 (ucast (ucast (drop_bit 16 v) :: byte))
     OR push_bit 24 (ucast (ucast (drop_bit 24 v) :: byte)) = (v :: 32 word)"
proof (rule bit_word_eqI)
  fix n assume "n < LENGTH(32)"
  then consider "n < 8" | "8 \<le> n" "n < 16" | "16 \<le> n" "n < 24" | "24 \<le> n" "n < 32"
    by fastforce
  then show "bit ((ucast (ucast v :: byte) :: 32 word) OR push_bit 8 (ucast (ucast (drop_bit 8 v) :: byte))
     OR push_bit 16 (ucast (ucast (drop_bit 16 v) :: byte))
     OR push_bit 24 (ucast (ucast (drop_bit 24 v) :: byte))) n = bit v n"
    by cases (auto simp: bit_simps)
qed

lemma get_put_uint16 [simp, wire]: "get_uint16 (put_uint16 v @ rest) = v"
  by (simp add: get_uint16_def put_uint16_def join16)

lemma get_put_uint16' [simp, wire]: "get_uint16 (put_uint16 v) = v"
  using get_put_uint16 [of v "[]"] by simp

lemma get_put_uint32 [simp, wire]: "get_uint32 (put_uint32 v @ rest) = v"
  by (simp add: get_uint32_def put_uint32_def join32 numeral_3_eq_3 numeral_2_eq_2)

lemma get_put_uint32' [simp, wire]: "get_uint32 (put_uint32 v) = v"
  using get_put_uint32 [of v "[]"] by simp

text \<open>
  The inverse direction, through the numbers the bytes denote: a byte sits above the ones
  after it.
\<close>

lemma bit_byte_ge: "8 \<le> n \<Longrightarrow> \<not> bit (b :: byte) n"
  using bit_imp_le_length [of b n] by auto

lemma split16_hi: "ucast (drop_bit 8 (ucast (b1 :: byte) OR push_bit 8 (ucast b0) :: 16 word)) = (b0 :: byte)"
  by (rule bit_word_eqI) (auto simp: bit_simps bit_byte_ge)

lemma split16_lo: "ucast (ucast b1 OR push_bit 8 (ucast (b0 :: byte)) :: 16 word) = (b1 :: byte)"
  by (rule bit_word_eqI) (auto simp: bit_simps)

lemma put_get_uint16: "length b = 2 \<Longrightarrow> put_uint16 (get_uint16 b) = b"
  by (auto simp only: put_uint16_def get_uint16_def split16_hi split16_lo length_Suc_conv
      numeral_2_eq_2 One_nat_def nth_Cons_0 nth_Cons_Suc length_0_conv)

lemma split32:
  fixes b0 b1 b2 b3 :: byte
  defines "w \<equiv> (ucast b3 OR push_bit 8 (ucast b2) OR push_bit 16 (ucast b1) OR push_bit 24 (ucast b0) :: 32 word)"
  shows "ucast (drop_bit 24 w) = b0" "ucast (drop_bit 16 w) = b1"
    "ucast (drop_bit 8 w) = b2" "ucast w = b3"
  unfolding w_def by (rule bit_word_eqI, auto simp: bit_simps bit_byte_ge)+

lemma length_4_iff: "length b = 4 \<longleftrightarrow> (\<exists>b0 b1 b2 b3. b = [b0, b1, b2, b3])"
  by (auto simp: length_Suc_conv eval_nat_numeral)

lemma put_get_uint32:
  assumes "length b = 4"
  shows "put_uint32 (get_uint32 b) = b"
proof -
  obtain b0 b1 b2 b3 where b: "b = [b0, b1, b2, b3]" using assms by (auto simp: length_4_iff)
  have "b ! 0 = b0" "b ! 1 = b1" "b ! 2 = b2" "b ! 3 = b3" by (simp_all add: b eval_nat_numeral)
  then show ?thesis
    unfolding put_uint32_def get_uint32_def by (simp only: split32) (simp add: b)
qed

lemma put_uint16_nth_2 [simp]: "(put_uint16 v @ t # xs) ! 2 = t"
  by (simp add: nth_append)

lemma unat_lt_16 [simp]: "unat (v :: 16 word) < 65536"
  using unsigned_less [of v] by simp

section \<open>Decimal printing (the \<open>%d\<close> verb)\<close>

fun show_nat :: "nat \<Rightarrow> string" where
  "show_nat n = (if n < 10 then [char_of (48 + n)] else show_nat (n div 10) @ [char_of (48 + n mod 10)])"

declare show_nat.simps [simp del]

text \<open>Reading the digits back, hence no two numbers print alike.\<close>

definition digits_value :: "string \<Rightarrow> nat" where
  "digits_value s = foldl (\<lambda>a c. 10 * a + (of_char c - 48)) 0 s"

lemma digits_value_snoc [simp]: "digits_value (s @ [c]) = 10 * digits_value s + (of_char c - 48)"
  by (simp add: digits_value_def)

lemma digits_value_show_nat [simp]: "digits_value (show_nat n) = n"
proof (induction n rule: show_nat.induct)
  case (1 n)
  show ?case
  proof (cases "n < 10")
    case True
    then show ?thesis by (simp add: show_nat.simps [of n] digits_value_def)
  next
    case False
    with 1 have "digits_value (show_nat (n div 10)) = n div 10" by simp
    with False show ?thesis by (simp add: show_nat.simps [of n])
  qed
qed

lemma show_nat_inject [simp]: "show_nat m = show_nat n \<longleftrightarrow> m = n"
  by (metis digits_value_show_nat)

lemma show_nat_not_Nil [simp]: "show_nat n \<noteq> []"
  by (simp add: show_nat.simps [of n])

definition is_digit :: "char \<Rightarrow> bool" where
  "is_digit c \<longleftrightarrow> (48::nat) \<le> of_char c \<and> of_char c \<le> (57::nat)"

lemma show_nat_digits: "c \<in> set (show_nat n) \<Longrightarrow> is_digit c"
proof (induction n rule: show_nat.induct)
  case (1 n)
  show ?case
  proof (cases "n < 10")
    case True
    with "1.prems" show ?thesis by (simp add: show_nat.simps [of n] is_digit_def)
  next
    case False
    with 1 show ?thesis
      by (auto simp: show_nat.simps [of n] is_digit_def)
  qed
qed

definition show_int :: "int \<Rightarrow> string" where
  "show_int i = (if i < 0 then ''-'' @ show_nat (nat (- i)) else show_nat (nat i))"

section \<open>Transition systems\<close>

text \<open>
  A component with state: initial states, a step relation, and an invariant that holds
  initially and that every step keeps. The invariant then holds in every reachable state,
  and along every run.
\<close>

inductive reach :: "('s \<Rightarrow> bool) \<Rightarrow> ('s \<Rightarrow> 's \<Rightarrow> bool) \<Rightarrow> 's \<Rightarrow> bool"
  for init :: "'s \<Rightarrow> bool" and step :: "'s \<Rightarrow> 's \<Rightarrow> bool" where
  reach_init: "init s \<Longrightarrow> reach init step s"
| reach_step: "reach init step s \<Longrightarrow> step s t \<Longrightarrow> reach init step t"

locale transition_system =
  fixes init :: "'s \<Rightarrow> bool" and step :: "'s \<Rightarrow> 's \<Rightarrow> bool" and inv :: "'s \<Rightarrow> bool"
  assumes inv_init: "init s \<Longrightarrow> inv s"
    and inv_step: "inv s \<Longrightarrow> step s t \<Longrightarrow> inv t"
begin

lemma reach_inv: "reach init step s \<Longrightarrow> inv s"
  by (induction rule: reach.induct) (auto intro: inv_init inv_step)

lemma reach_run: "reach init step s \<Longrightarrow> step\<^sup>*\<^sup>* s t \<Longrightarrow> reach init step t"
  by (rotate_tac, induction rule: rtranclp_induct) (auto intro: reach_step)

lemma run_inv: "reach init step s \<Longrightarrow> step\<^sup>*\<^sup>* s t \<Longrightarrow> inv t"
  by (blast intro: reach_run reach_inv)

text \<open>A fact of a state that no step changes once the invariant holds survives every run.\<close>

lemma run_stable:
  assumes "reach init step s" and "step\<^sup>*\<^sup>* s t" and "P s"
    and "\<And>u v. inv u \<Longrightarrow> P u \<Longrightarrow> step u v \<Longrightarrow> P v"
  shows "P t"
  using assms(2,1,3)
  by (induction rule: rtranclp_induct) (auto intro: assms(4) reach_inv reach_run)

end

section \<open>Self-delimiting codecs\<close>

text \<open>
  An encoder into bytes and a decoder that reads one item off the front of a stream and
  hands back the rest. The one law is that the decoder undoes the encoder whatever
  follows it. From it: injectivity, prefix-freeness, and the decoding of a whole
  sequence of items from the concatenation of their encodings.
\<close>

fun decode_seq :: "(byte list \<Rightarrow> ('a \<times> byte list) option) \<Rightarrow> nat \<Rightarrow> byte list \<Rightarrow> ('a list \<times> byte list) option" where
  "decode_seq dec 0 bs = Some ([], bs)"
| "decode_seq dec (Suc n) bs =
     (case dec bs of None \<Rightarrow> None
      | Some (x, rest) \<Rightarrow> (case decode_seq dec n rest of None \<Rightarrow> None
                         | Some (xs, rest') \<Rightarrow> Some (x # xs, rest')))"

locale codec =
  fixes enc :: "'a \<Rightarrow> byte list" and dec :: "byte list \<Rightarrow> ('a \<times> byte list) option"
    and valid :: "'a \<Rightarrow> bool"
  assumes dec_enc: "valid x \<Longrightarrow> dec (enc x @ rest) = Some (x, rest)"
begin

lemma enc_inj: "valid x \<Longrightarrow> valid y \<Longrightarrow> enc x = enc y \<Longrightarrow> x = y"
  using dec_enc [of x "[]"] dec_enc [of y "[]"] by simp

lemma enc_prefix_free: "valid x \<Longrightarrow> valid y \<Longrightarrow> enc x @ r = enc y @ s \<Longrightarrow> x = y \<and> r = s"
  by (metis dec_enc option.inject prod.inject)

lemma decode_seq_enc:
  "(\<forall>x\<in>set xs. valid x) \<Longrightarrow> decode_seq dec (length xs) (concat (map enc xs) @ rest) = Some (xs, rest)"
  by (induction xs) (simp_all add: dec_enc)

lemma concat_enc_inj:
  assumes "\<forall>x\<in>set xs. valid x" and "\<forall>y\<in>set ys. valid y" and "length xs = length ys"
    and "concat (map enc xs) = concat (map enc ys)"
  shows "xs = ys"
proof -
  have "decode_seq dec (length xs) (concat (map enc xs) @ []) = Some (xs, [])"
    using assms(1) by (rule decode_seq_enc)
  moreover have "decode_seq dec (length ys) (concat (map enc ys) @ []) = Some (ys, [])"
    using assms(2) by (rule decode_seq_enc)
  ultimately have "Some (xs, []) = Some (ys, [] :: byte list)"
    using assms(3,4) by metis
  then show ?thesis by blast
qed

end

end
