(* ===== verification/Relay_Session.thy ===== *)
theory Relay_Session
  imports Prelude
begin

text \<open>
  \<open>internal/relay/session.go\<close>: the relay session, two slots for connections, a byte counter
  and a closed flag. Connections are named by numbers; \<open>None\<close> in a slot is a nil connection.
  Each method runs under the session's mutex, so each is one function of the session.
\<close>

type_synonym conn_id = nat

record session =
  ID :: string
  CreatedAt :: int
  peers :: "conn_id option list"
  peerCount :: nat
  bytes_relayed :: "64 word"
  QuotaBytes :: "64 word"
  QuotaRate :: int
  closed :: bool

definition new_session :: "string \<Rightarrow> int \<Rightarrow> 64 word \<Rightarrow> int \<Rightarrow> session" where
  "new_session i now quota rate = \<lparr>ID = i, CreatedAt = now, peers = [None, None], peerCount = 0,
     bytes_relayed = 0, QuotaBytes = quota, QuotaRate = rate, closed = False\<rparr>"

datatype relay_error = RelayError string

fun relay_error_text :: "relay_error \<Rightarrow> string" where
  "relay_error_text (RelayError m) = ''relay: '' @ m"

definition AddPeer :: "conn_id option \<Rightarrow> session \<Rightarrow> relay_error option \<times> session" where
  "AddPeer c s =
     (if 2 \<le> peerCount s then (Some (RelayError ''session already has 2 peers''), s)
      else (None, s\<lparr>peers := (peers s)[peerCount s := c], peerCount := peerCount s + 1\<rparr>))"

definition PeerCount :: "session \<Rightarrow> nat" where
  "PeerCount s = peerCount s"

text \<open>\<open>GetPeers\<close> and the loop of \<open>Close\<close> walk the first \<open>peerCount\<close> slots, skipping nil.\<close>

fun some_peers :: "conn_id option list \<Rightarrow> conn_id list" where
  "some_peers [] = []"
| "some_peers (None # ps) = some_peers ps"
| "some_peers (Some c # ps) = c # some_peers ps"

definition GetPeers :: "session \<Rightarrow> conn_id list" where
  "GetPeers s = some_peers (take (peerCount s) (peers s))"

definition AddBytes :: "64 word \<Rightarrow> session \<Rightarrow> session" where
  "AddBytes n s = s\<lparr>bytes_relayed := bytes_relayed s + n\<rparr>"

definition BytesRelayed :: "session \<Rightarrow> int" where
  "BytesRelayed s = sint (bytes_relayed s)"

text \<open>\<open>Close\<close>: the connections it closes, and the session; nothing the second time.\<close>

definition Close :: "session \<Rightarrow> conn_id list \<times> session" where
  "Close s =
     (if closed s then ([], s)
      else (some_peers (take (peerCount s) (peers s)), s\<lparr>closed := True\<rparr>))"

section \<open>Well-formed sessions\<close>

text \<open>Two slots; the connections added so far fill them from the left.\<close>

definition session_ok :: "session \<Rightarrow> bool" where
  "session_ok s \<longleftrightarrow> length (peers s) = 2 \<and> peerCount s \<le> 2
     \<and> (\<forall>i < peerCount s. peers s ! i \<noteq> None) \<and> distinct (GetPeers s)"

lemma some_peers_Some: "list_all (\<lambda>p. p \<noteq> None) ps \<Longrightarrow> some_peers ps = map the ps"
  by (induction ps rule: some_peers.induct) auto

lemma some_peers_append [simp]: "some_peers (ps @ qs) = some_peers ps @ some_peers qs"
  by (induction ps rule: some_peers.induct) auto

lemma session_ok_new [simp]: "session_ok (new_session i now q r)"
  by (simp add: session_ok_def new_session_def GetPeers_def)

lemma GetPeers_new [simp]: "GetPeers (new_session i now q r) = []"
  by (simp add: GetPeers_def new_session_def)

lemma AddPeer_None_iff [simp]: "fst (AddPeer c s) = None \<longleftrightarrow> peerCount s < 2"
  by (simp add: AddPeer_def not_le)

lemma AddPeer_frame [simp]:
  "ID (snd (AddPeer c s)) = ID s" "closed (snd (AddPeer c s)) = closed s"
  "bytes_relayed (snd (AddPeer c s)) = bytes_relayed s"
  by (simp_all add: AddPeer_def)

lemma GetPeers_AddPeer:
  assumes "session_ok s" and "peerCount s < 2"
  shows "GetPeers (snd (AddPeer (Some c) s)) = GetPeers s @ [c]"
  using assms
  by (simp add: AddPeer_def GetPeers_def session_ok_def take_Suc_conv_app_nth)

lemma AddPeer_ok:
  assumes "session_ok s" and "c \<notin> set (GetPeers s)"
  shows "session_ok (snd (AddPeer (Some c) s))"
proof (cases "peerCount s < 2")
  case True
  with assms GetPeers_AddPeer [OF assms(1) True, of c] show ?thesis
    by (auto simp: session_ok_def AddPeer_def nth_list_update less_Suc_eq)
next
  case False
  with assms show ?thesis by (simp add: AddPeer_def)
qed

lemma length_GetPeers: "session_ok s \<Longrightarrow> length (GetPeers s) = peerCount s"
proof -
  assume ok: "session_ok s"
  then have "list_all (\<lambda>p. p \<noteq> None) (take (peerCount s) (peers s))"
    by (auto simp: session_ok_def list_all_length)
  then show ?thesis using ok by (simp add: GetPeers_def some_peers_Some session_ok_def)
qed

lemma AddBytes_frame [simp]:
  "ID (AddBytes n s) = ID s" "GetPeers (AddBytes n s) = GetPeers s" "peerCount (AddBytes n s) = peerCount s"
  "session_ok (AddBytes n s) = session_ok s" "closed (AddBytes n s) = closed s" "peers (AddBytes n s) = peers s"
  by (simp_all add: AddBytes_def GetPeers_def session_ok_def)

lemma Close_frame [simp]:
  "ID (snd (Close s)) = ID s" "GetPeers (snd (Close s)) = GetPeers s" "peerCount (snd (Close s)) = peerCount s"
  "session_ok (snd (Close s)) = session_ok s" "closed (snd (Close s))" "peers (snd (Close s)) = peers s"
  "bytes_relayed (snd (Close s)) = bytes_relayed s"
  by (auto simp: Close_def GetPeers_def session_ok_def)

section \<open>Properties\<close>

text \<open>
  C32: a relay session never has a third peer, and closing it is idempotent. Adding to a
  well-formed session either appends the connection to the peers or, when there are two
  already, reports an error and changes nothing; \<open>Close\<close> hands back every peer exactly
  the first time and nothing afterwards.
\<close>

theorem session_operations:
  assumes "session_ok s" and "c \<notin> set (GetPeers s)"
  shows "(case AddPeer (Some c) s of
           (None, t) \<Rightarrow> GetPeers t = GetPeers s @ [c] \<and> PeerCount t = Suc (PeerCount s) \<and> session_ok t
         | (Some e, t) \<Rightarrow> PeerCount s = 2 \<and> t = s \<and> relay_error_text e = ''relay: session already has 2 peers'')
    \<and> length (GetPeers s) = PeerCount s \<and> PeerCount s \<le> 2
    \<and> fst (Close s) = (if closed s then [] else GetPeers s)
    \<and> Close (snd (Close s)) = ([], snd (Close s))"
  using assms AddPeer_ok [OF assms] GetPeers_AddPeer [OF assms(1)] length_GetPeers [OF assms(1)]
  by (cases "peerCount s < 2") (auto simp: AddPeer_def PeerCount_def Close_def GetPeers_def session_ok_def)

theorem session_operations_witness:
  "GetPeers (snd (AddPeer (Some 4) (new_session ''s'' 0 0 0))) = [4]"
  using session_operations [OF session_ok_new, of 4 "''s''" 0 0 0]
  by (simp add: AddPeer_def new_session_def GetPeers_def)

end
