(* ===== verification/GoIO.thy ===== *)
theory GoIO
  imports Prelude
begin

text \<open>
  The part of Go's \<open>io\<close>, \<open>bufio\<close> and \<open>net\<close> packages the source relies on. A connection
  delivers its incoming bytes in the pieces in which they arrived; \<open>Read\<close> never crosses
  a piece. On top of it: \<open>io.ReadFull\<close> over any reader, the 4096-byte \<open>bufio.Reader\<close>,
  and the interface \<open>io.Reader\<close> as a locale, whose laws both the connection and the
  buffered reader satisfy. Inside the locale: \<open>io.ReadFull\<close> returns the next bytes of
  the stream however they are cut into pieces, and otherwise reports the stream's end.
\<close>

section \<open>Connections (\<open>net.Conn\<close>)\<close>

datatype io_error =
    EOF                \<comment> \<open>\<open>io.EOF\<close>\<close>
  | UnexpectedEOF      \<comment> \<open>\<open>io.ErrUnexpectedEOF\<close>\<close>
  | NoProgress         \<comment> \<open>\<open>io.ErrNoProgress\<close>\<close>
  | ErrClosed          \<comment> \<open>\<open>net.ErrClosed\<close>: this end has been closed\<close>
  | ConnErr string     \<comment> \<open>any other failure: a reset, an expired deadline\<close>

fun io_error_text :: "io_error \<Rightarrow> string" where
  "io_error_text EOF = ''EOF''"
| "io_error_text UnexpectedEOF = ''unexpected EOF''"
| "io_error_text NoProgress = ''multiple Read calls return no data or error''"
| "io_error_text ErrClosed = ''use of closed network connection''"
| "io_error_text (ConnErr m) = m"

text \<open>
  \<open>rx\<close> holds the pieces not read yet and \<open>rx_end\<close> what a read meets after them; \<open>tx\<close> is
  what has been written, and \<open>tx_room\<close> how many more bytes the peer takes before a write
  fails, and how (\<open>None\<close>: every write succeeds).
\<close>

record conn =
  rx :: "byte list list"
  rx_end :: io_error
  tx :: "byte list"
  tx_room :: "(nat \<times> io_error) option"
  conn_closed :: bool

fun next_piece :: "byte list list \<Rightarrow> byte list list" where
  "next_piece [] = []"
| "next_piece ([] # ps) = next_piece ps"
| "next_piece ((b # bs) # ps) = (b # bs) # ps"

text \<open>\<open>Read\<close> with a buffer of \<open>k\<close> bytes.\<close>

definition conn_read :: "nat \<Rightarrow> conn \<Rightarrow> (io_error + byte list) \<times> conn" where
  "conn_read k c =
     (if conn_closed c then (Inl ErrClosed, c)
      else if k = 0 then (Inr [], c)
      else case next_piece (rx c) of
             [] \<Rightarrow> (Inl (rx_end c), c\<lparr>rx := []\<rparr>)
           | p # ps \<Rightarrow> (Inr (take k p), c\<lparr>rx := drop k p # ps\<rparr>))"

text \<open>\<open>Write\<close>: all the bytes, or as many as there is room for and the error.\<close>

definition conn_write :: "byte list \<Rightarrow> conn \<Rightarrow> io_error option \<times> conn" where
  "conn_write bs c =
     (if conn_closed c then (Some ErrClosed, c)
      else case tx_room c of
             None \<Rightarrow> (None, c\<lparr>tx := tx c @ bs\<rparr>)
           | Some (k, e) \<Rightarrow>
               if length bs \<le> k then (None, c\<lparr>tx := tx c @ bs, tx_room := Some (k - length bs, e)\<rparr>)
               else (Some e, c\<lparr>tx := tx c @ take k bs, tx_room := Some (0, e)\<rparr>))"

definition conn_close :: "conn \<Rightarrow> conn" where
  "conn_close c = c\<lparr>conn_closed := True\<rparr>"

text \<open>The bytes still to be read, and how the stream ends.\<close>

definition conn_stream :: "conn \<Rightarrow> byte list" where
  "conn_stream c = (if conn_closed c then [] else concat (rx c))"

definition conn_end :: "conn \<Rightarrow> io_error" where
  "conn_end c = (if conn_closed c then ErrClosed else rx_end c)"

text \<open>The sending half, which reading leaves alone.\<close>

definition outgoing :: "conn \<Rightarrow> byte list \<times> (nat \<times> io_error) option \<times> bool" where
  "outgoing c = (tx c, tx_room c, conn_closed c)"

lemma outgoing_eq_iff:
  "outgoing c = outgoing d \<longleftrightarrow> tx c = tx d \<and> tx_room c = tx_room d \<and> conn_closed c = conn_closed d"
  by (simp add: outgoing_def)

lemma outgoing_rx [simp]: "outgoing (c\<lparr>rx := ps\<rparr>) = outgoing c"
  by (simp add: outgoing_def)

lemma concat_next_piece [simp]: "concat (next_piece ps) = concat ps"
  by (induction ps rule: next_piece.induct) auto

lemma next_piece_hd: "next_piece ps = p # qs \<Longrightarrow> p \<noteq> []"
  by (induction ps rule: next_piece.induct) auto

lemma next_piece_Nil_iff: "next_piece ps = [] \<longleftrightarrow> concat ps = []"
  by (induction ps rule: next_piece.induct) auto

lemma conn_close_simps [conn_simps]:
  "conn_closed (conn_close c)" "tx (conn_close c) = tx c" "conn_stream (conn_close c) = []"
  "conn_end (conn_close c) = ErrClosed" "conn_close (conn_close c) = conn_close c"
  by (simp_all add: conn_close_def conn_stream_def conn_end_def)

lemma conn_write_rx [conn_simps]:
  "rx (snd (conn_write bs c)) = rx c" "rx_end (snd (conn_write bs c)) = rx_end c"
  "conn_closed (snd (conn_write bs c)) = conn_closed c"
  "conn_stream (snd (conn_write bs c)) = conn_stream c"
  "conn_end (snd (conn_write bs c)) = conn_end c"
  by (auto simp: conn_write_def conn_stream_def conn_end_def split: option.splits)

lemma conn_write_ok:
  "\<not> conn_closed c \<Longrightarrow> tx_room c = None \<Longrightarrow> conn_write bs c = (None, c\<lparr>tx := tx c @ bs\<rparr>)"
  by (simp add: conn_write_def)

lemma conn_write_prefix:
  "\<exists>ws. tx (snd (conn_write bs c)) = tx c @ ws \<and> ws = take (length ws) bs"
  by (auto simp: conn_write_def split: option.splits)

lemma conn_write_None:
  "fst (conn_write bs c) = None \<Longrightarrow> tx (snd (conn_write bs c)) = tx c @ bs"
  by (auto simp: conn_write_def split: option.splits if_splits)

section \<open>\<open>io.ReadFull\<close>\<close>

text \<open>
  \<open>io.ReadFull(r, buf)\<close> is \<open>io.ReadAtLeast\<close> with the length of the buffer: read until
  the buffer is full or an error comes; an end of file after some bytes is unexpected.
  A reader that keeps returning no bytes and no error keeps it looping, so the loop is a
  partial function and \<open>None\<close> means that it does not return.
\<close>

type_synonym 'r reader = "nat \<Rightarrow> 'r \<Rightarrow> (io_error + byte list) \<times> 'r"

partial_function (option) read_at_least ::
  "'r reader \<Rightarrow> nat \<Rightarrow> byte list \<Rightarrow> 'r \<Rightarrow> ((io_error + byte list) \<times> 'r) option" where
  "read_at_least rd k acc r =
     (if k \<le> length acc then Some (Inr acc, r)
      else case rd (k - length acc) r of
             (Inl e, r') \<Rightarrow> Some (Inl (if acc \<noteq> [] \<and> e = EOF then UnexpectedEOF else e), r')
           | (Inr bs, r') \<Rightarrow> read_at_least rd k (acc @ bs) r')"

declare read_at_least.simps [code]

definition read_full :: "'r reader \<Rightarrow> nat \<Rightarrow> 'r \<Rightarrow> ((io_error + byte list) \<times> 'r) option" where
  "read_full rd k r = read_at_least rd k [] r"

text \<open>What the caller of \<open>io.ReadFull\<close> sees when the stream ends early.\<close>

definition short_error :: "byte list \<Rightarrow> io_error \<Rightarrow> io_error" where
  "short_error got e = (if got \<noteq> [] \<and> e = EOF then UnexpectedEOF else e)"

section \<open>The interface \<open>io.Reader\<close>\<close>

text \<open>
  A reader stands for the bytes it will still deliver and the error that ends them. With
  room for at least one byte, \<open>Read\<close> returns a nonempty piece off the front, or, when
  nothing is left, the error.
\<close>

locale io_reader =
  fixes rd :: "'r reader" and stream :: "'r \<Rightarrow> byte list" and ending :: "'r \<Rightarrow> io_error"
    and good :: "'r \<Rightarrow> bool"
  assumes rd_some: "good r \<Longrightarrow> 0 < k \<Longrightarrow> stream r \<noteq> [] \<Longrightarrow>
      \<exists>bs r'. rd k r = (Inr bs, r') \<and> bs \<noteq> [] \<and> length bs \<le> k \<and> stream r = bs @ stream r'
        \<and> ending r' = ending r \<and> good r'"
    and rd_none: "good r \<Longrightarrow> 0 < k \<Longrightarrow> stream r = [] \<Longrightarrow>
      \<exists>r'. rd k r = (Inl (ending r), r') \<and> stream r' = [] \<and> ending r' = ending r \<and> good r'"
begin

lemma read_at_least_enough:
  assumes "good r" and "k \<le> length acc + length (stream r)" and "length acc \<le> k"
  shows "\<exists>r'. read_at_least rd k acc r = Some (Inr (acc @ take (k - length acc) (stream r)), r')
    \<and> stream r' = drop (k - length acc) (stream r) \<and> ending r' = ending r \<and> good r'"
  using assms
proof (induction "k - length acc" arbitrary: acc r rule: less_induct)
  case less
  show ?case
  proof (cases "k \<le> length acc")
    case True
    with less.prems show ?thesis by (simp add: read_at_least.simps)
  next
    case False
    with less.prems have "0 < k - length acc" and "stream r \<noteq> []" by auto
    with rd_some [OF less.prems(1)] obtain bs r' where
      rd: "rd (k - length acc) r = (Inr bs, r')" and bs: "bs \<noteq> []" "length bs \<le> k - length acc"
      and st: "stream r = bs @ stream r'" and en: "ending r' = ending r" "good r'"
      by blast
    have "k - length (acc @ bs) < k - length acc" using bs False by (cases bs) auto
    moreover have "k \<le> length (acc @ bs) + length (stream r')" and "length (acc @ bs) \<le> k"
      using less.prems bs False st by auto
    ultimately obtain r'' where
      IH: "read_at_least rd k (acc @ bs) r' =
          Some (Inr ((acc @ bs) @ take (k - length (acc @ bs)) (stream r')), r'')"
        "stream r'' = drop (k - length (acc @ bs)) (stream r')"
        "ending r'' = ending r'" "good r''"
      using less.hyps [OF _ en(2)] by blast
    then show ?thesis
      using False rd st bs en by (simp add: read_at_least.simps [of _ _ acc])
  qed
qed

lemma read_at_least_short:
  assumes "good r" and "length acc + length (stream r) < k"
  shows "\<exists>r'. read_at_least rd k acc r = Some (Inl (short_error (acc @ stream r) (ending r)), r')
    \<and> stream r' = [] \<and> ending r' = ending r \<and> good r'"
  using assms
proof (induction "length (stream r)" arbitrary: acc r rule: less_induct)
  case less
  then have k: "\<not> k \<le> length acc" "0 < k - length acc" by auto
  show ?case
  proof (cases "stream r = []")
    case True
    with rd_none [OF less.prems(1) k(2)] k show ?thesis
      by (auto simp: read_at_least.simps [of _ _ acc] short_error_def)
  next
    case False
    with rd_some [OF less.prems(1) k(2)] obtain bs r' where
      rd: "rd (k - length acc) r = (Inr bs, r')" and bs: "bs \<noteq> []"
      and st: "stream r = bs @ stream r'" and en: "ending r' = ending r" "good r'"
      by blast
    have "length (stream r') < length (stream r)" using bs st by (cases bs) auto
    from less.hyps [OF this en(2), of "acc @ bs"] less.prems st show ?thesis
      using k rd en by (simp add: read_at_least.simps [of _ _ acc])
  qed
qed

text \<open>\<open>io.ReadFull\<close> always returns, and its result is a function of the stream alone.\<close>

lemma read_full_enough:
  assumes "good r" and "k \<le> length (stream r)"
  obtains r' where "read_full rd k r = Some (Inr (take k (stream r)), r')"
    and "stream r' = drop k (stream r)" and "ending r' = ending r" and "good r'"
  using read_at_least_enough [of r k "[]"] assms by (auto simp: read_full_def)

lemma read_full_short:
  assumes "good r" and "length (stream r) < k"
  obtains r' where "read_full rd k r = Some (Inl (short_error (stream r) (ending r)), r')"
    and "stream r' = []" and "ending r' = ending r" and "good r'"
  using read_at_least_short [of r "[]" k] assms by (auto simp: read_full_def)

end

text \<open>A reader that also offers \<open>ReadByte\<close> (\<open>io.ByteReader\<close>).\<close>

locale io_byte_reader = io_reader +
  fixes rb :: "'r \<Rightarrow> (io_error + byte) \<times> 'r"
  assumes rb_some: "good r \<Longrightarrow> stream r = b # bs \<Longrightarrow>
      \<exists>r'. rb r = (Inr b, r') \<and> stream r' = bs \<and> ending r' = ending r \<and> good r'"
    and rb_none: "good r \<Longrightarrow> stream r = [] \<Longrightarrow>
      \<exists>r'. rb r = (Inl (ending r), r') \<and> stream r' = [] \<and> ending r' = ending r \<and> good r'"

section \<open>Programs over a reader, and the parsers they implement\<close>

text \<open>
  A routine that reads from \<open>'r\<close> returns a value or an error together with the reader it
  leaves (\<open>None\<close>: it does not return). \<open>io_bind\<close> is sequencing with the early return of
  \<open>if err != nil { return err }\<close>, \<open>io_wrap\<close> the wrapping of an error by \<open>fmt.Errorf\<close>.
\<close>

type_synonym ('r, 'e, 'a) io = "'r \<Rightarrow> (('e + 'a) \<times> 'r) option"

definition io_ret :: "'a \<Rightarrow> ('r, 'e, 'a) io" where
  "io_ret x = (\<lambda>r. Some (Inr x, r))"

definition io_fail :: "'e \<Rightarrow> ('r, 'e, 'a) io" where
  "io_fail e = (\<lambda>r. Some (Inl e, r))"

definition io_bind :: "('r, 'e, 'a) io \<Rightarrow> ('a \<Rightarrow> ('r, 'e, 'b) io) \<Rightarrow> ('r, 'e, 'b) io" where
  "io_bind m f = (\<lambda>r. case m r of None \<Rightarrow> None
      | Some (Inl e, r') \<Rightarrow> Some (Inl e, r')
      | Some (Inr x, r') \<Rightarrow> f x r')"

definition io_wrap :: "('d \<Rightarrow> 'e) \<Rightarrow> ('r, 'd, 'a) io \<Rightarrow> ('r, 'e, 'a) io" where
  "io_wrap w m = (\<lambda>r. case m r of None \<Rightarrow> None
      | Some (Inl e, r') \<Rightarrow> Some (Inl (w e), r')
      | Some (Inr x, r') \<Rightarrow> Some (Inr x, r'))"

definition io_call :: "('r \<Rightarrow> ('e + 'a) \<times> 'r) \<Rightarrow> ('r, 'e, 'a) io" where
  "io_call f = (\<lambda>r. Some (f r))"

text \<open>The same combinators on the flat stream: what the routine does to the bytes.\<close>

type_synonym ('e, 'a) parser = "byte list \<Rightarrow> io_error \<Rightarrow> ('e + 'a) \<times> byte list"

definition p_ret :: "'a \<Rightarrow> ('e, 'a) parser" where
  "p_ret x = (\<lambda>s e. (Inr x, s))"

definition p_fail :: "'e \<Rightarrow> ('e, 'a) parser" where
  "p_fail x = (\<lambda>s e. (Inl x, s))"

definition p_bind :: "('e, 'a) parser \<Rightarrow> ('a \<Rightarrow> ('e, 'b) parser) \<Rightarrow> ('e, 'b) parser" where
  "p_bind p q = (\<lambda>s e. case p s e of (Inl x, s') \<Rightarrow> (Inl x, s') | (Inr a, s') \<Rightarrow> q a s' e)"

definition p_wrap :: "('d \<Rightarrow> 'e) \<Rightarrow> ('d, 'a) parser \<Rightarrow> ('e, 'a) parser" where
  "p_wrap w p = (\<lambda>s e. case p s e of (Inl x, s') \<Rightarrow> (Inl (w x), s') | (Inr a, s') \<Rightarrow> (Inr a, s'))"

definition p_full :: "nat \<Rightarrow> (io_error, byte list) parser" where
  "p_full k = (\<lambda>s e. if k \<le> length s then (Inr (take k s), drop k s) else (Inl (short_error s e), []))"

definition p_byte :: "(io_error, byte) parser" where
  "p_byte = (\<lambda>s e. case s of [] \<Rightarrow> (Inl e, []) | b # bs \<Rightarrow> (Inr b, bs))"

lemmas parser_defs = p_ret_def p_fail_def p_bind_def p_wrap_def p_full_def p_byte_def

text \<open>Inversion: what a successful parse says of the input.\<close>

lemma p_ret_Inr: "p_ret x s e = (Inr y, r) \<longleftrightarrow> y = x \<and> r = s"
  by (auto simp: p_ret_def)

lemma p_fail_Inr: "p_fail x s e \<noteq> (Inr y, r)"
  by (simp add: p_fail_def)

lemma p_bind_Inr: "p_bind p q s e = (Inr y, r) \<longleftrightarrow> (\<exists>x s'. p s e = (Inr x, s') \<and> q x s' e = (Inr y, r))"
  by (auto simp: p_bind_def split: prod.splits sum.splits)

lemma p_wrap_Inr: "p_wrap w p s e = (Inr y, r) \<longleftrightarrow> p s e = (Inr y, r)"
  by (auto simp: p_wrap_def split: prod.splits sum.splits)

lemma p_full_Inr: "p_full k s e = (Inr x, r) \<longleftrightarrow> s = x @ r \<and> length x = k"
proof
  assume "p_full k s e = (Inr x, r)"
  then have "k \<le> length s" "x = take k s" "r = drop k s" by (auto simp: p_full_def split: if_splits)
  then show "s = x @ r \<and> length x = k" by simp
qed (auto simp: p_full_def)

lemma p_byte_Inr: "p_byte s e = (Inr b, r) \<longleftrightarrow> s = b # r"
  by (auto simp: p_byte_def split: list.splits)

lemma p_guard_Inr: "(if b then p_fail x else q) s e = (Inr y, r) \<longleftrightarrow> \<not> b \<and> q s e = (Inr y, r)"
  by (simp add: p_fail_Inr)

lemmas parser_Inr = p_guard_Inr p_ret_Inr p_fail_Inr p_bind_Inr p_wrap_Inr p_full_Inr p_byte_Inr

definition implements ::
  "('r \<Rightarrow> byte list) \<Rightarrow> ('r \<Rightarrow> io_error) \<Rightarrow> ('r \<Rightarrow> bool) \<Rightarrow> ('r, 'e, 'a) io \<Rightarrow> ('e, 'a) parser \<Rightarrow> bool" where
  "implements stream ending good m p \<longleftrightarrow>
     (\<forall>r. good r \<longrightarrow> (\<exists>r'. m r = Some (fst (p (stream r) (ending r)), r')
        \<and> stream r' = snd (p (stream r) (ending r)) \<and> ending r' = ending r \<and> good r'))"

context io_reader
begin

lemma impl_ret: "implements stream ending good (io_ret x) (p_ret x)"
  by (simp add: implements_def io_ret_def p_ret_def)

lemma impl_fail: "implements stream ending good (io_fail x) (p_fail x)"
  by (simp add: implements_def io_fail_def p_fail_def)

lemma impl_bind:
  assumes m: "implements stream ending good m p"
    and f: "\<And>x. implements stream ending good (f x) (q x)"
  shows "implements stream ending good (io_bind m f) (p_bind p q)"
  unfolding implements_def
proof (intro allI impI)
  fix r assume "good r"
  with m obtain r' where r': "m r = Some (fst (p (stream r) (ending r)), r')"
    "stream r' = snd (p (stream r) (ending r))" "ending r' = ending r" "good r'"
    unfolding implements_def by blast
  show "\<exists>r'. io_bind m f r = Some (fst (p_bind p q (stream r) (ending r)), r')
      \<and> stream r' = snd (p_bind p q (stream r) (ending r)) \<and> ending r' = ending r \<and> good r'"
  proof (cases "p (stream r) (ending r)")
    case (Pair res s')
    show ?thesis
    proof (cases res)
      case (Inl e)
      with r' Pair show ?thesis by (simp add: io_bind_def p_bind_def)
    next
      case (Inr x)
      with r' Pair f [of x] show ?thesis by (auto simp: io_bind_def p_bind_def implements_def)
    qed
  qed
qed

lemma impl_wrap:
  "implements stream ending good m p \<Longrightarrow> implements stream ending good (io_wrap w m) (p_wrap w p)"
  unfolding implements_def io_wrap_def p_wrap_def
  by (fastforce split: prod.splits sum.splits)

lemma impl_full: "implements stream ending good (read_full rd k) (p_full k)"
  unfolding implements_def
proof (intro allI impI)
  fix r assume g: "good r"
  show "\<exists>r'. read_full rd k r = Some (fst (p_full k (stream r) (ending r)), r')
      \<and> stream r' = snd (p_full k (stream r) (ending r)) \<and> ending r' = ending r \<and> good r'"
    by (cases "k \<le> length (stream r)")
      (use g in \<open>auto simp: p_full_def not_le elim: read_full_enough read_full_short\<close>)
qed

end

context io_byte_reader
begin

lemma impl_byte: "implements stream ending good (io_call rb) p_byte"
  unfolding implements_def p_byte_def io_call_def
  by (auto dest: rb_some rb_none split: list.split)

end

text \<open>The connection is a reader, whose sending half stays what it was (\<open>out\<close>).\<close>

interpretation conn_rd: io_reader conn_read conn_stream conn_end "\<lambda>c. outgoing c = out" for out
proof unfold_locales
  fix c :: conn and k :: nat
  assume o: "outgoing c = out" and k: "0 < k" and ne: "conn_stream c \<noteq> []"
  then have nc: "\<not> conn_closed c" and "next_piece (rx c) \<noteq> []"
    by (auto simp: conn_stream_def next_piece_Nil_iff split: if_splits)
  then obtain p ps where p: "next_piece (rx c) = p # ps" by (cases "next_piece (rx c)") auto
  have "concat (rx c) = p @ concat ps" using concat_next_piece [of "rx c"] p by simp
  with o nc k p next_piece_hd [OF p]
  show "\<exists>bs r'. conn_read k c = (Inr bs, r') \<and> bs \<noteq> [] \<and> length bs \<le> k
      \<and> conn_stream c = bs @ conn_stream r' \<and> conn_end r' = conn_end c \<and> outgoing r' = out"
    by (auto simp: conn_read_def conn_stream_def conn_end_def)
next
  fix c :: conn and k :: nat
  assume "outgoing c = out" and "0 < k" and "conn_stream c = []"
  then show "\<exists>r'. conn_read k c = (Inl (conn_end c), r') \<and> conn_stream r' = []
      \<and> conn_end r' = conn_end c \<and> outgoing r' = out"
    by (auto simp: conn_read_def conn_stream_def conn_end_def next_piece_Nil_iff [THEN iffD2]
        split: if_splits)
qed

section \<open>\<open>bufio.Reader\<close>\<close>

text \<open>
  The buffered reader of \<open>bufio.NewReader\<close>: a buffer of 4096 bytes in front of the
  connection, and a pending error. A large read with an empty buffer goes straight to the
  connection; any other takes what the buffer has, after at most one \<open>Read\<close> to refill it.
  What is left in the buffer when the reader is dropped is lost to later readers of the
  connection.
\<close>

record bufreader =
  buf :: "byte list"
  pend :: "io_error option"
  under :: conn

definition bufio_size :: nat where
  "bufio_size = 4096"

definition new_bufreader :: "conn \<Rightarrow> bufreader" where
  "new_bufreader c = \<lparr>buf = [], pend = None, under = c\<rparr>"

definition bufio_read :: "nat \<Rightarrow> bufreader \<Rightarrow> (io_error + byte list) \<times> bufreader" where
  "bufio_read k b =
     (if buf b \<noteq> [] then (Inr (take k (buf b)), b\<lparr>buf := drop k (buf b)\<rparr>)
      else case pend b of
             Some e \<Rightarrow> (Inl e, b\<lparr>pend := None\<rparr>)
           | None \<Rightarrow>
               if k = 0 then (Inr [], b)
               else if bufio_size \<le> k then
                 (case conn_read k (under b) of (res, c) \<Rightarrow> (res, b\<lparr>under := c\<rparr>))
               else
                 (case conn_read bufio_size (under b) of
                    (Inl e, c) \<Rightarrow> (Inl e, b\<lparr>under := c\<rparr>)
                  | (Inr bs, c) \<Rightarrow> (Inr (take k bs), b\<lparr>buf := drop k bs, under := c\<rparr>)))"

text \<open>\<open>fill\<close> tries a hundred times to get a byte into the empty buffer.\<close>

fun bufio_fill :: "nat \<Rightarrow> bufreader \<Rightarrow> bufreader" where
  "bufio_fill 0 b = b\<lparr>pend := Some NoProgress\<rparr>"
| "bufio_fill (Suc i) b =
     (case conn_read bufio_size (under b) of
        (Inl e, c) \<Rightarrow> b\<lparr>pend := Some e, under := c\<rparr>
      | (Inr bs, c) \<Rightarrow> (if bs \<noteq> [] then b\<lparr>buf := bs, under := c\<rparr>
                       else bufio_fill i (b\<lparr>under := c\<rparr>)))"

definition bufio_read_byte :: "bufreader \<Rightarrow> (io_error + byte) \<times> bufreader" where
  "bufio_read_byte b =
     (let b' = (if buf b = [] \<and> pend b = None then bufio_fill 100 b else b)
      in case buf b' of
           x # xs \<Rightarrow> (Inr x, b'\<lparr>buf := xs\<rparr>)
         | [] \<Rightarrow> (case pend b' of Some e \<Rightarrow> (Inl e, b'\<lparr>pend := None\<rparr>)
                              | None \<Rightarrow> (Inl NoProgress, b')))"

definition buf_stream :: "bufreader \<Rightarrow> byte list" where
  "buf_stream b = buf b @ conn_stream (under b)"

definition buf_end :: "bufreader \<Rightarrow> io_error" where
  "buf_end b = conn_end (under b)"

lemma new_bufreader_simps [simp]:
  "buf_stream (new_bufreader c) = conn_stream c" "buf_end (new_bufreader c) = conn_end c"
  "pend (new_bufreader c) = None" "under (new_bufreader c) = c" "buf (new_bufreader c) = []"
  by (simp_all add: new_bufreader_def buf_stream_def buf_end_def)

lemma bufio_size_pos [simp]: "0 < bufio_size"
  by (simp add: bufio_size_def)

lemma bufio_read_refill:
  assumes "pend b = None" and "buf b = []" and "0 < k" and "k < bufio_size"
    and "conn_stream (under b) \<noteq> []"
  obtains bs c where "bufio_read k b = (Inr (take k bs), b\<lparr>buf := drop k bs, under := c\<rparr>)"
    and "bs \<noteq> []" and "conn_stream (under b) = bs @ conn_stream c" and "conn_end c = conn_end (under b)"
    and "outgoing c = outgoing (under b)"
  using assms conn_rd.rd_some [OF refl bufio_size_pos assms(5)]
  by (fastforce simp: bufio_read_def)

lemma bufio_read_some:
  assumes "pend b = None" and "0 < k" and "buf_stream b \<noteq> []"
  shows "\<exists>bs b'. bufio_read k b = (Inr bs, b') \<and> bs \<noteq> [] \<and> length bs \<le> k
    \<and> buf_stream b = bs @ buf_stream b' \<and> buf_end b' = buf_end b \<and> pend b' = None
    \<and> outgoing (under b') = outgoing (under b)"
proof (cases "buf b = []")
  case False
  with assms show ?thesis by (simp add: bufio_read_def buf_stream_def buf_end_def)
next
  case True
  with assms have ne: "conn_stream (under b) \<noteq> []" by (simp add: buf_stream_def)
  show ?thesis
  proof (cases "bufio_size \<le> k")
    case big: True
    with True assms conn_rd.rd_some [OF refl assms(2) ne] show ?thesis
      by (auto simp: bufio_read_def buf_stream_def buf_end_def)
  next
    case False
    then have "k < bufio_size" by simp
    from bufio_read_refill [OF assms(1) True assms(2) this ne] obtain bs c where
      "bufio_read k b = (Inr (take k bs), b\<lparr>buf := drop k bs, under := c\<rparr>)" "bs \<noteq> []"
      "conn_stream (under b) = bs @ conn_stream c" "conn_end c = conn_end (under b)"
      "outgoing c = outgoing (under b)" .
    with True assms show ?thesis by (auto simp: buf_stream_def buf_end_def)
  qed
qed

lemma bufio_read_none:
  assumes "pend b = None" and "0 < k" and "buf_stream b = []"
  shows "\<exists>b'. bufio_read k b = (Inl (buf_end b), b') \<and> buf_stream b' = []
    \<and> buf_end b' = buf_end b \<and> pend b' = None \<and> outgoing (under b') = outgoing (under b)"
proof -
  have e: "buf b = []" "conn_stream (under b) = []" using assms(3) by (auto simp: buf_stream_def)
  from conn_rd.rd_none [OF refl assms(2) e(2)] conn_rd.rd_none [OF refl bufio_size_pos e(2)]
  show ?thesis using assms e by (auto simp: bufio_read_def buf_stream_def buf_end_def)
qed

lemma bufio_fill_some:
  assumes "conn_stream (under b) \<noteq> []"
  obtains bs c where "bufio_fill (Suc i) b = b\<lparr>buf := bs, under := c\<rparr>" and "bs \<noteq> []"
    and "conn_stream (under b) = bs @ conn_stream c" and "conn_end c = conn_end (under b)"
    and "outgoing c = outgoing (under b)"
proof -
  obtain bs c where "conn_read bufio_size (under b) = (Inr bs, c)" "bs \<noteq> []"
    "conn_stream (under b) = bs @ conn_stream c" "conn_end c = conn_end (under b)"
    "outgoing c = outgoing (under b)"
    using conn_rd.rd_some [OF refl bufio_size_pos assms] by blast
  then show thesis by (intro that [of c bs]) auto
qed

lemma bufio_fill_none:
  assumes "conn_stream (under b) = []"
  obtains c where "bufio_fill (Suc i) b = b\<lparr>pend := Some (conn_end (under b)), under := c\<rparr>"
    and "conn_stream c = []" and "conn_end c = conn_end (under b)"
    and "outgoing c = outgoing (under b)"
proof -
  obtain c where "conn_read bufio_size (under b) = (Inl (conn_end (under b)), c)"
    "conn_stream c = []" "conn_end c = conn_end (under b)" "outgoing c = outgoing (under b)"
    using conn_rd.rd_none [OF refl bufio_size_pos assms] by blast
  then show thesis by (intro that [of c]) auto
qed

text \<open>The buffered reader is a reader, with \<open>ReadByte\<close>.\<close>

definition buf_good :: "byte list \<times> (nat \<times> io_error) option \<times> bool \<Rightarrow> bufreader \<Rightarrow> bool" where
  "buf_good out b \<longleftrightarrow> pend b = None \<and> outgoing (under b) = out"

interpretation buf_rd: io_byte_reader bufio_read buf_stream buf_end "buf_good out" bufio_read_byte for out
proof unfold_locales
  fix b :: bufreader and x bs
  assume g: "buf_good out b" and s: "buf_stream b = x # bs"
  show "\<exists>r'. bufio_read_byte b = (Inr x, r') \<and> buf_stream r' = bs \<and> buf_end r' = buf_end b \<and> buf_good out r'"
  proof (cases "buf b = []")
    case True
    with s have "conn_stream (under b) \<noteq> []" by (auto simp: buf_stream_def)
    then obtain ys c where "bufio_fill (Suc 99) b = b\<lparr>buf := ys, under := c\<rparr>" and "ys \<noteq> []"
      and "conn_stream (under b) = ys @ conn_stream c" "conn_end c = conn_end (under b)"
        "outgoing c = outgoing (under b)"
      by (rule bufio_fill_some)
    with g s True show ?thesis
      by (cases ys) (auto simp: bufio_read_byte_def buf_stream_def buf_end_def buf_good_def)
  next
    case False
    with g s show ?thesis
      by (cases "buf b") (auto simp: bufio_read_byte_def buf_stream_def buf_end_def buf_good_def)
  qed
next
  fix b :: bufreader
  assume g: "buf_good out b" and s: "buf_stream b = []"
  then have e: "buf b = []" "conn_stream (under b) = []" by (auto simp: buf_stream_def)
  obtain c where "bufio_fill (Suc 99) b = b\<lparr>pend := Some (conn_end (under b)), under := c\<rparr>"
    and "conn_stream c = []" "conn_end c = conn_end (under b)" "outgoing c = outgoing (under b)"
    using e(2) by (rule bufio_fill_none)
  with g e show "\<exists>r'. bufio_read_byte b = (Inl (buf_end b), r') \<and> buf_stream r' = [] \<and>
      buf_end r' = buf_end b \<and> buf_good out r'"
    by (auto simp: bufio_read_byte_def buf_stream_def buf_end_def buf_good_def)
next
  fix b :: bufreader and k :: nat
  assume "buf_good out b" and "0 < k" and "buf_stream b \<noteq> []"
  then show "\<exists>bs r'. bufio_read k b = (Inr bs, r') \<and> bs \<noteq> [] \<and> length bs \<le> k
      \<and> buf_stream b = bs @ buf_stream r' \<and> buf_end r' = buf_end b \<and> buf_good out r'"
    using bufio_read_some [of b k] by (auto simp: buf_good_def)
next
  fix b :: bufreader and k :: nat
  assume "buf_good out b" and "0 < k" and "buf_stream b = []"
  then show "\<exists>r'. bufio_read k b = (Inl (buf_end b), r') \<and> buf_stream r' = []
      \<and> buf_end r' = buf_end b \<and> buf_good out r'"
    using bufio_read_none [of b k] by (auto simp: buf_good_def)
qed

lemma buf_good_new [simp]: "buf_good (outgoing c) (new_bufreader c)"
  by (simp add: buf_good_def)

end
