(* ===== verification/Handshake.thy ===== *)
theory Handshake
  imports GoIO
begin

text \<open>
  \<open>internal/relay/handshake.go\<close> and \<open>internal/relay/client.go\<close>: the binary handshake
  between a peer and the relay, both directions, and the client that dials. The server
  side and the client side read through a \<open>bufio.Reader\<close> they throw away afterwards, so
  the model keeps the connection under that reader and what its buffer still held.
\<close>

section \<open>Constants and data\<close>

definition handshakeMagic :: string where "handshakeMagic = ''CBLD''"
definition handshakeVersion :: byte where "handshakeVersion = 0x01"
definition PeerTypeInitiator :: byte where "PeerTypeInitiator = 0x01"
definition PeerTypeResponder :: byte where "PeerTypeResponder = 0x02"
definition statusOK :: byte where "statusOK = 0x00"
definition statusError :: byte where "statusError = 0x01"

lemmas handshake_consts = handshakeVersion_def PeerTypeInitiator_def PeerTypeResponder_def
  statusOK_def statusError_def

abbreviation magic_bytes :: "byte list" where
  "magic_bytes \<equiv> bytes_of_string handshakeMagic"

lemma length_magic [simp]: "length handshakeMagic = 4"
  by (simp add: handshakeMagic_def)

record HandshakeMessage =
  hs_SessionID :: string
  hs_PeerType :: byte

datatype handshake_error =
    ReadMagic io_error
  | InvalidMagic string
  | ReadVersion io_error
  | UnsupportedVersion byte
  | ReadIDLength io_error
  | InvalidIDLength nat
  | ReadID io_error
  | ReadPeerType io_error
  | InvalidPeerType byte

text \<open>
  The text of the error, which the server sends back to the peer. \<open>quote\<close> stands for the
  \<open>%q\<close> verb (\<open>strconv.Quote\<close>), which depends on Unicode tables.
\<close>

fun handshake_error_text :: "(string \<Rightarrow> string) \<Rightarrow> handshake_error \<Rightarrow> string" where
  "handshake_error_text quote (ReadMagic e) = ''read magic: '' @ io_error_text e"
| "handshake_error_text quote (InvalidMagic m) = ''invalid magic: '' @ quote m"
| "handshake_error_text quote (ReadVersion e) = ''read version: '' @ io_error_text e"
| "handshake_error_text quote (UnsupportedVersion v) = ''unsupported version: '' @ show_nat (unat v)"
| "handshake_error_text quote (ReadIDLength e) = ''read session ID length: '' @ io_error_text e"
| "handshake_error_text quote (InvalidIDLength n) = ''invalid session ID length: '' @ show_nat n"
| "handshake_error_text quote (ReadID e) = ''read session ID: '' @ io_error_text e"
| "handshake_error_text quote (ReadPeerType e) = ''read peer type: '' @ io_error_text e"
| "handshake_error_text quote (InvalidPeerType t) = ''invalid peer type: '' @ show_nat (unat t)"

datatype ack_error =
    AckReadMagic io_error
  | AckInvalidMagic string
  | AckReadStatus io_error
  | AckReadMsgLength io_error
  | AckReadMsg io_error
  | AckFailed string

section \<open>Client to server\<close>

text \<open>\<open>byte(n>>8), byte(n)\<close>.\<close>

definition length_bytes :: "nat \<Rightarrow> byte list" where
  "length_bytes n = [word_of_nat (drop_bit 8 n), word_of_nat n]"

datatype write_handshake_error = SessionIDTooLong nat | HandshakeWrite io_error

definition WriteHandshake :: "conn \<Rightarrow> string \<Rightarrow> byte \<Rightarrow> write_handshake_error option \<times> conn" where
  "WriteHandshake conn sessionID peerType =
     (let idBytes = bytes_of_string sessionID
      in if 65535 < length idBytes then (Some (SessionIDTooLong (length idBytes)), conn)
         else case conn_write (magic_bytes @ [handshakeVersion] @ length_bytes (length idBytes)
                @ idBytes @ [peerType]) conn of
                (err, conn') \<Rightarrow> (map_option HandshakeWrite err, conn'))"

definition read_handshake ::
  "'r reader \<Rightarrow> ('r \<Rightarrow> (io_error + byte) \<times> 'r) \<Rightarrow> ('r, handshake_error, HandshakeMessage) io" where
  "read_handshake rd rb =
     io_bind (io_wrap ReadMagic (read_full rd 4)) (\<lambda>magic.
     if string_of_bytes magic \<noteq> handshakeMagic then io_fail (InvalidMagic (string_of_bytes magic))
     else io_bind (io_wrap ReadVersion (io_call rb)) (\<lambda>version.
     if version \<noteq> handshakeVersion then io_fail (UnsupportedVersion version)
     else io_bind (io_wrap ReadIDLength (read_full rd 2)) (\<lambda>idLenBuf.
     let idLen = unat (get_uint16 idLenBuf)
     in if idLen = 0 \<or> 256 < idLen then io_fail (InvalidIDLength idLen)
     else io_bind (io_wrap ReadID (read_full rd idLen)) (\<lambda>sessionID.
     io_bind (io_wrap ReadPeerType (io_call rb)) (\<lambda>peerType.
     if peerType \<noteq> PeerTypeInitiator \<and> peerType \<noteq> PeerTypeResponder
     then io_fail (InvalidPeerType peerType)
     else io_ret \<lparr>hs_SessionID = string_of_bytes sessionID, hs_PeerType = peerType\<rparr>)))))"

text \<open>\<open>ReadHandshake\<close> reads through a fresh \<open>bufio.Reader\<close> and returns the bare connection.\<close>

definition ReadHandshake :: "(conn, handshake_error, HandshakeMessage) io" where
  "ReadHandshake c = map_option (\<lambda>(res, b). (res, under b))
     (read_handshake bufio_read bufio_read_byte (new_bufreader c))"

definition parse_handshake :: "(handshake_error, HandshakeMessage) parser" where
  "parse_handshake =
     p_bind (p_wrap ReadMagic (p_full 4)) (\<lambda>magic.
     if string_of_bytes magic \<noteq> handshakeMagic then p_fail (InvalidMagic (string_of_bytes magic))
     else p_bind (p_wrap ReadVersion p_byte) (\<lambda>version.
     if version \<noteq> handshakeVersion then p_fail (UnsupportedVersion version)
     else p_bind (p_wrap ReadIDLength (p_full 2)) (\<lambda>idLenBuf.
     let idLen = unat (get_uint16 idLenBuf)
     in if idLen = 0 \<or> 256 < idLen then p_fail (InvalidIDLength idLen)
     else p_bind (p_wrap ReadID (p_full idLen)) (\<lambda>sessionID.
     p_bind (p_wrap ReadPeerType p_byte) (\<lambda>peerType.
     if peerType \<noteq> PeerTypeInitiator \<and> peerType \<noteq> PeerTypeResponder
     then p_fail (InvalidPeerType peerType)
     else p_ret \<lparr>hs_SessionID = string_of_bytes sessionID, hs_PeerType = peerType\<rparr>)))))"

section \<open>Server to client\<close>

definition WriteHandshakeAck :: "conn \<Rightarrow> bool \<Rightarrow> string \<Rightarrow> io_error option \<times> conn" where
  "WriteHandshakeAck conn ok errMsg =
     (if ok then conn_write (magic_bytes @ [statusOK]) conn
      else let msgBytes = take 65535 (bytes_of_string errMsg)
           in conn_write (magic_bytes @ [statusError] @ length_bytes (length msgBytes) @ msgBytes) conn)"

definition read_ack ::
  "'r reader \<Rightarrow> ('r \<Rightarrow> (io_error + byte) \<times> 'r) \<Rightarrow> ('r, ack_error, unit) io" where
  "read_ack rd rb =
     io_bind (io_wrap AckReadMagic (read_full rd 4)) (\<lambda>magic.
     if string_of_bytes magic \<noteq> handshakeMagic then io_fail (AckInvalidMagic (string_of_bytes magic))
     else io_bind (io_wrap AckReadStatus (io_call rb)) (\<lambda>status.
     if status = statusOK then io_ret ()
     else io_bind (io_wrap AckReadMsgLength (read_full rd 2)) (\<lambda>msgLenBuf.
     let msgLen = unat (get_uint16 msgLenBuf)
     in io_bind (io_wrap AckReadMsg (read_full rd msgLen)) (\<lambda>msgBytes.
     io_fail (AckFailed (string_of_bytes msgBytes))))))"

definition ReadHandshakeAck :: "(conn, ack_error, unit) io" where
  "ReadHandshakeAck c = map_option (\<lambda>(res, b). (res, under b))
     (read_ack bufio_read bufio_read_byte (new_bufreader c))"

definition parse_ack :: "(ack_error, unit) parser" where
  "parse_ack =
     p_bind (p_wrap AckReadMagic (p_full 4)) (\<lambda>magic.
     if string_of_bytes magic \<noteq> handshakeMagic then p_fail (AckInvalidMagic (string_of_bytes magic))
     else p_bind (p_wrap AckReadStatus p_byte) (\<lambda>status.
     if status = statusOK then p_ret ()
     else p_bind (p_wrap AckReadMsgLength (p_full 2)) (\<lambda>msgLenBuf.
     let msgLen = unat (get_uint16 msgLenBuf)
     in p_bind (p_wrap AckReadMsg (p_full msgLen)) (\<lambda>msgBytes.
     p_fail (AckFailed (string_of_bytes msgBytes))))))"

section \<open>The client\<close>

datatype connect_error =
    DialRelay io_error
  | ConnectWrite write_handshake_error
  | ConnectAck ack_error

text \<open>
  \<open>ConnectToRelay\<close>, given what \<open>net.DialTimeout\<close> returned: the connection it hands to the
  caller or the error, and the connection as it is afterwards (closed on every error).
  The deadline set around the handshake shows as the error that ends the stream.
\<close>

definition ConnectToRelay ::
  "io_error + conn \<Rightarrow> string \<Rightarrow> byte \<Rightarrow> ((connect_error + conn) \<times> conn option) option" where
  "ConnectToRelay dialled sessionID peerType =
     (case dialled of
        Inl e \<Rightarrow> Some (Inl (DialRelay e), None)
      | Inr conn \<Rightarrow>
          (case WriteHandshake conn sessionID peerType of
             (Some e, conn) \<Rightarrow> Some (Inl (ConnectWrite e), Some (conn_close conn))
           | (None, conn) \<Rightarrow>
               (case ReadHandshakeAck conn of
                  None \<Rightarrow> None
                | Some (Inl e, conn) \<Rightarrow> Some (Inl (ConnectAck e), Some (conn_close conn))
                | Some (Inr _, conn) \<Rightarrow> Some (Inr conn, Some conn))))"

definition ConnectAsInitiator ::
  "io_error + conn \<Rightarrow> string \<Rightarrow> ((connect_error + conn) \<times> conn option) option" where
  "ConnectAsInitiator dialled sessionID = ConnectToRelay dialled sessionID PeerTypeInitiator"

definition ConnectAsResponder ::
  "io_error + conn \<Rightarrow> string \<Rightarrow> ((connect_error + conn) \<times> conn option) option" where
  "ConnectAsResponder dialled sessionID = ConnectToRelay dialled sessionID PeerTypeResponder"

section \<open>The readers implement the parsers\<close>

context io_byte_reader
begin

lemma impl_read_handshake: "implements stream ending good (read_handshake rd rb) parse_handshake"
  unfolding read_handshake_def parse_handshake_def Let_def
  by (intro impl_bind impl_wrap impl_full)
    (auto intro!: impl_fail impl_bind impl_ret impl_wrap impl_full impl_byte)

lemma impl_read_ack: "implements stream ending good (read_ack rd rb) parse_ack"
  unfolding read_ack_def parse_ack_def Let_def
  by (intro impl_bind impl_wrap impl_full)
    (auto intro!: impl_fail impl_bind impl_ret impl_wrap impl_full impl_byte)

end

text \<open>
  On a connection: the result is the parser's, and what the parser leaves is what the
  dropped buffer held, followed by what the connection still delivers.
\<close>

lemma ReadHandshake_stream:
  obtains c' lost where "ReadHandshake c = Some (fst (parse_handshake (conn_stream c) (conn_end c)), c')"
    and "snd (parse_handshake (conn_stream c) (conn_end c)) = lost @ conn_stream c'"
    and "conn_end c' = conn_end c" and "outgoing c' = outgoing c"
proof -
  from buf_rd.impl_read_handshake buf_good_new [of c] obtain b where
    "read_handshake bufio_read bufio_read_byte (new_bufreader c) =
       Some (fst (parse_handshake (conn_stream c) (conn_end c)), b)"
    "buf_stream b = snd (parse_handshake (conn_stream c) (conn_end c))" "buf_end b = conn_end c"
    "buf_good (outgoing c) b"
    unfolding implements_def by (metis new_bufreader_simps(1,2))
  then show thesis
    by (intro that [of "under b" "buf b"])
      (auto simp: ReadHandshake_def buf_stream_def buf_end_def buf_good_def)
qed

lemma ReadHandshakeAck_stream:
  obtains c' lost where "ReadHandshakeAck c = Some (fst (parse_ack (conn_stream c) (conn_end c)), c')"
    and "snd (parse_ack (conn_stream c) (conn_end c)) = lost @ conn_stream c'"
    and "conn_end c' = conn_end c" and "outgoing c' = outgoing c"
proof -
  from buf_rd.impl_read_ack buf_good_new [of c] obtain b where
    "read_ack bufio_read bufio_read_byte (new_bufreader c) =
       Some (fst (parse_ack (conn_stream c) (conn_end c)), b)"
    "buf_stream b = snd (parse_ack (conn_stream c) (conn_end c))" "buf_end b = conn_end c"
    "buf_good (outgoing c) b"
    unfolding implements_def by (metis new_bufreader_simps(1,2))
  then show thesis
    by (intro that [of "under b" "buf b"])
      (auto simp: ReadHandshakeAck_def buf_stream_def buf_end_def buf_good_def)
qed

section \<open>What is written is what is read\<close>

lemma length_bytes_put_uint16: "length_bytes n = put_uint16 (word_of_nat n)"
  by (auto simp: length_bytes_def put_uint16_def bit_simps intro!: bit_word_eqI)

lemma length_length_bytes [simp]: "length (length_bytes n) = 2"
  by (simp add: length_bytes_def)

lemma get_length_bytes [simp]: "n \<le> 65535 \<Longrightarrow> unat (get_uint16 (length_bytes n)) = n"
  by (simp add: length_bytes_put_uint16 unat_of_nat)

definition handshake_bytes :: "HandshakeMessage \<Rightarrow> byte list" where
  "handshake_bytes m = magic_bytes @ [handshakeVersion] @ length_bytes (length (hs_SessionID m))
     @ bytes_of_string (hs_SessionID m) @ [hs_PeerType m]"

definition handshake_valid :: "HandshakeMessage \<Rightarrow> bool" where
  "handshake_valid m \<longleftrightarrow> 1 \<le> length (hs_SessionID m) \<and> length (hs_SessionID m) \<le> 256
     \<and> (hs_PeerType m = PeerTypeInitiator \<or> hs_PeerType m = PeerTypeResponder)"

lemma WriteHandshake_bytes:
  "length sid \<le> 65535 \<Longrightarrow> WriteHandshake c sid t =
     (case conn_write (handshake_bytes \<lparr>hs_SessionID = sid, hs_PeerType = t\<rparr>) c of
        (err, c') \<Rightarrow> (map_option HandshakeWrite err, c'))"
  by (simp add: WriteHandshake_def handshake_bytes_def)

text \<open>Step rules of the flat parsers, applied to concatenations.\<close>

lemma p_full_append [simp, wire]: "k = length xs \<Longrightarrow> p_full k (xs @ ys) e = (Inr xs, ys)"
  by (simp add: p_full_def)

lemma p_byte_Cons [simp, wire]: "p_byte (x # xs) e = (Inr x, xs)"
  by (simp add: p_byte_def)

lemma parse_handshake_bytes:
  assumes "length (hs_SessionID m) \<le> 65535"
  shows "parse_handshake (handshake_bytes m @ rest) e =
    (let n = length (hs_SessionID m)
     in if n = 0 \<or> 256 < n
        then (Inl (InvalidIDLength n), bytes_of_string (hs_SessionID m) @ [hs_PeerType m] @ rest)
        else if hs_PeerType m \<noteq> PeerTypeInitiator \<and> hs_PeerType m \<noteq> PeerTypeResponder
        then (Inl (InvalidPeerType (hs_PeerType m)), rest)
        else (Inr m, rest))"
  using assms
  by (auto simp: parse_handshake_def handshake_bytes_def p_bind_def p_wrap_def p_ret_def p_fail_def Let_def)

lemma parse_handshake_valid: "handshake_valid m \<Longrightarrow> parse_handshake (handshake_bytes m @ rest) e = (Inr m, rest)"
  by (auto simp: parse_handshake_bytes handshake_valid_def Let_def)

definition decode_handshake :: "byte list \<Rightarrow> (HandshakeMessage \<times> byte list) option" where
  "decode_handshake bs = (case parse_handshake bs EOF of (Inr m, rest) \<Rightarrow> Some (m, rest) | (Inl _, _) \<Rightarrow> None)"

interpretation handshakes: codec handshake_bytes decode_handshake handshake_valid
  by unfold_locales (simp add: decode_handshake_def parse_handshake_valid)

lemma parse_handshake_Inr:
  assumes "parse_handshake s e = (Inr m, rest)"
  shows "handshake_valid m \<and> s = handshake_bytes m @ rest"
proof -
  from assms obtain mg s1 v s2 l s3 i s4 t where
    mg: "string_of_bytes mg = handshakeMagic"
    and raw: "s = mg @ s1" "s1 = v # s2" "v = handshakeVersion" "s2 = l @ s3" "s3 = i @ s4" "s4 = t # rest"
    and l: "length l = 2" "length i = unat (get_uint16 l)"
      "\<not> (unat (get_uint16 l) = 0 \<or> 256 < unat (get_uint16 l))"
    and t: "\<not> (t \<noteq> PeerTypeInitiator \<and> t \<noteq> PeerTypeResponder)"
    and m: "m = \<lparr>hs_SessionID = string_of_bytes i, hs_PeerType = t\<rparr>"
    unfolding parse_handshake_def Let_def parser_Inr by blast
  have "mg = magic_bytes" using mg by (metis bytes_of_string_of_bytes)
  with raw have "s = magic_bytes @ [handshakeVersion] @ l @ i @ [t] @ rest" by simp
  moreover have "length_bytes (length i) = l"
    by (simp add: length_bytes_put_uint16 put_get_uint16 l)
  ultimately show ?thesis using l t m by (auto simp: handshake_bytes_def handshake_valid_def)
qed

definition ack_bytes :: "string option \<Rightarrow> byte list" where
  "ack_bytes a = (case a of
      None \<Rightarrow> magic_bytes @ [statusOK]
    | Some msg \<Rightarrow> magic_bytes @ [statusError] @ length_bytes (length (take 65535 msg))
        @ bytes_of_string (take 65535 msg))"

lemma WriteHandshakeAck_bytes:
  "WriteHandshakeAck c ok msg = conn_write (ack_bytes (if ok then None else Some msg)) c"
  by (simp add: WriteHandshakeAck_def ack_bytes_def bytes_of_string_def take_map Let_def)

lemma parse_ack_bytes:
  "parse_ack (ack_bytes a @ rest) e =
     (case a of None \<Rightarrow> (Inr (), rest) | Some msg \<Rightarrow> (Inl (AckFailed (take 65535 msg)), rest))"
  by (auto simp: parse_ack_def ack_bytes_def p_bind_def p_wrap_def p_ret_def p_fail_def Let_def
      handshake_consts split: option.split)

section \<open>A handshake or an acknowledgment in one piece\<close>

text \<open>
  When the first piece of a connection fits the buffer, the first read takes all of it:
  what follows the message in that piece stays in the buffer.
\<close>

definition idle_conn :: "byte list list \<Rightarrow> conn" where
  "idle_conn ps = \<lparr>rx = ps, rx_end = EOF, tx = [], tx_room = None, conn_closed = False\<rparr>"

lemma idle_conn_simps [simp]:
  "rx (idle_conn ps) = ps" "rx_end (idle_conn ps) = EOF" "tx (idle_conn ps) = []"
  "tx_room (idle_conn ps) = None" "\<not> conn_closed (idle_conn ps)"
  "conn_stream (idle_conn ps) = concat ps" "conn_end (idle_conn ps) = EOF"
  by (simp_all add: idle_conn_def conn_stream_def conn_end_def)

lemma read_full_buffered:
  assumes "0 < k" and "k \<le> length (buf b)"
  shows "read_full bufio_read k b = Some (Inr (take k (buf b)), b\<lparr>buf := drop k (buf b)\<rparr>)"
proof -
  have "buf b \<noteq> []" using assms by auto
  with assms show ?thesis
    by (simp add: read_full_def read_at_least.simps bufio_read_def)
qed

lemma read_full_first_piece:
  assumes "0 < k" and "k \<le> length p" and "length p \<le> bufio_size" and "k < bufio_size"
  shows "read_full bufio_read k (new_bufreader (idle_conn (p # ps)))
    = Some (Inr (take k p), \<lparr>buf = drop k p, pend = None, under = idle_conn ([] # ps)\<rparr>)"
proof -
  have "p \<noteq> []" using assms by auto
  then have "conn_read bufio_size (idle_conn (p # ps)) = (Inr p, idle_conn ([] # ps))"
    using assms(3) by (cases p) (auto simp: conn_read_def idle_conn_def bufio_size_def)
  with assms have "bufio_read k (new_bufreader (idle_conn (p # ps)))
      = (Inr (take k p), \<lparr>buf = drop k p, pend = None, under = idle_conn ([] # ps)\<rparr>)"
    by (simp add: bufio_read_def new_bufreader_def)
  with assms show ?thesis
    by (simp add: read_full_def read_at_least.simps)
qed

lemma read_byte_buffered:
  "buf b = x # xs \<Longrightarrow> bufio_read_byte b = (Inr x, b\<lparr>buf := xs\<rparr>)"
  by (simp add: bufio_read_byte_def)

lemma ack_one_piece:
  assumes "length (ack_bytes None @ extra) \<le> bufio_size"
  shows "ReadHandshakeAck (idle_conn ((ack_bytes None @ extra) # ps)) = Some (Inr (), idle_conn ([] # ps))"
  using assms read_full_first_piece [of 4 "ack_bytes None @ extra" ps]
  by (simp add: ReadHandshakeAck_def read_ack_def io_bind_def io_wrap_def io_call_def io_ret_def
      read_byte_buffered ack_bytes_def bufio_size_def)

lemma handshake_one_piece:
  assumes v: "handshake_valid m" and l: "length (handshake_bytes m @ extra) \<le> bufio_size"
  shows "ReadHandshake (idle_conn ((handshake_bytes m @ extra) # ps)) = Some (Inr m, idle_conn ([] # ps))"
proof -
  have n: "unat (get_uint16 (length_bytes (length (hs_SessionID m)))) = length (hs_SessionID m)"
    "hs_SessionID m \<noteq> []" "length (hs_SessionID m) \<le> 256"
    "hs_PeerType m = PeerTypeInitiator \<or> hs_PeerType m = PeerTypeResponder"
    using v by (auto simp: handshake_valid_def)
  then show ?thesis
    using l read_full_first_piece [of 4 "handshake_bytes m @ extra" ps]
    by (auto simp: ReadHandshake_def read_handshake_def io_bind_def io_wrap_def io_call_def io_ret_def
        read_byte_buffered read_full_buffered handshake_bytes_def bufio_size_def Let_def)
qed

section \<open>Properties\<close>

text \<open>
  C9: client and server agree on the handshake, up to the length of the session id. What
  \<open>WriteHandshake\<close> sends for an id of 1 to 256 bytes and a known peer type is read back by
  \<open>ReadHandshake\<close> as that id and type, however the bytes are cut up on the way; the client
  also sends, without an error, ids the server refuses: the empty one, and those of 257 to
  65535 bytes; an unknown peer type is refused by the server only.
\<close>

theorem handshake_agreement:
  assumes "length sid \<le> 65535" and "\<not> conn_closed k" and "tx_room k = None" and "tx k = []"
    and "WriteHandshake k sid t = (err, k')" and "conn_stream c = tx k' @ rest"
  shows "err = None \<and> (\<exists>c'. ReadHandshake c = Some
    (if length sid = 0 \<or> 256 < length sid then Inl (InvalidIDLength (length sid))
     else if t = PeerTypeInitiator \<or> t = PeerTypeResponder
       then Inr \<lparr>hs_SessionID = sid, hs_PeerType = t\<rparr>
     else Inl (InvalidPeerType t), c'))"
proof -
  let ?m = "\<lparr>hs_SessionID = sid, hs_PeerType = t\<rparr>"
  have w: "err = None" "conn_stream c = handshake_bytes ?m @ rest"
    using assms by (auto simp: WriteHandshake_bytes conn_write_ok)
  obtain c' where "ReadHandshake c = Some (fst (parse_handshake (conn_stream c) (conn_end c)), c')"
    by (rule ReadHandshake_stream)
  moreover have "length (hs_SessionID ?m) \<le> 65535" using assms(1) by simp
  ultimately show ?thesis
    unfolding w(2) parse_handshake_bytes [OF \<open>length (hs_SessionID ?m) \<le> 65535\<close>]
    using w(1) by (auto simp: Let_def)
qed

theorem handshake_agreement_witness:
  "\<exists>c'. ReadHandshake (idle_conn [[67, 66], [76, 68, 1, 0], [2, 97, 98, 1], [9]])
    = Some (Inr \<lparr>hs_SessionID = ''ab'', hs_PeerType = PeerTypeInitiator\<rparr>, c')"
proof -
  have w: "WriteHandshake (idle_conn []) ''ab'' PeerTypeInitiator
      = (None, (idle_conn [])\<lparr>tx := [67, 66, 76, 68, 1, 0, 2, 97, 98, 1]\<rparr>)"
    by (simp add: WriteHandshake_def conn_write_ok handshakeMagic_def bytes_of_string_def
        byte_of_char_def length_bytes_def handshake_consts drop_bit_eq_div)
  show ?thesis
    using handshake_agreement [OF _ _ _ _ w, of "idle_conn [[67, 66], [76, 68, 1, 0], [2, 97, 98, 1], [9]]" "[9]"]
    by simp
qed

text \<open>
  C25: the server accepts nothing else. If \<open>ReadHandshake\<close> returns a message, the connection
  began with exactly the encoding of that message, whose id has 1 to 256 bytes and whose
  peer type is one of the two; what came after it is split between the bytes the dropped
  buffer took along and those the connection still delivers.
\<close>

theorem ReadHandshake_sound:
  assumes "ReadHandshake c = Some (Inr m, c')"
  shows "1 \<le> length (hs_SessionID m) \<and> length (hs_SessionID m) \<le> 256
    \<and> hs_PeerType m \<in> {PeerTypeInitiator, PeerTypeResponder}
    \<and> (\<exists>lost. conn_stream c = handshake_bytes m @ lost @ conn_stream c')"
proof -
  obtain d lost where d: "ReadHandshake c = Some (fst (parse_handshake (conn_stream c) (conn_end c)), d)"
    "snd (parse_handshake (conn_stream c) (conn_end c)) = lost @ conn_stream d"
    by (rule ReadHandshake_stream)
  with assms have "parse_handshake (conn_stream c) (conn_end c) = (Inr m, lost @ conn_stream c')"
    by (metis option.inject prod.collapse prod.inject)
  from parse_handshake_Inr [OF this] show ?thesis by (auto simp: handshake_valid_def)
qed

theorem ReadHandshake_sound_witness:
  "\<exists>m c'. ReadHandshake (idle_conn [handshake_bytes \<lparr>hs_SessionID = ''s1'', hs_PeerType = PeerTypeResponder\<rparr>]) = Some (Inr m, c')
    \<and> length (hs_SessionID m) \<le> 256"
proof -
  let ?m = "\<lparr>hs_SessionID = ''s1'', hs_PeerType = PeerTypeResponder\<rparr>"
  obtain c' where "ReadHandshake (idle_conn [handshake_bytes ?m])
      = Some (fst (parse_handshake (handshake_bytes ?m @ []) EOF), c')"
    using ReadHandshake_stream [of "idle_conn [handshake_bytes ?m]"] by auto
  moreover have "parse_handshake (handshake_bytes ?m @ []) EOF = (Inr ?m, [])"
    by (rule parse_handshake_valid) (simp add: handshake_valid_def)
  ultimately have "ReadHandshake (idle_conn [handshake_bytes ?m]) = Some (Inr ?m, c')" by simp
  with ReadHandshake_sound [OF this] show ?thesis by blast
qed

text \<open>
  C33: bytes that arrive together with the acknowledgment are lost. If the piece that
  carries the server's positive acknowledgment also carries more bytes (up to the size of
  the buffer), \<open>ReadHandshakeAck\<close> succeeds, and the connection it leaves delivers what
  comes after that piece: the extra bytes are never seen by the caller. The relay starts
  forwarding to the second peer right after acknowledging it, so these are the first
  bytes of the other peer.
\<close>

theorem bytes_after_ack_lost:
  assumes "length extra \<le> 4091"
  shows "\<exists>c'. ReadHandshakeAck (idle_conn ((ack_bytes None @ extra) # ps)) = Some (Inr (), c')
    \<and> conn_stream (idle_conn ((ack_bytes None @ extra) # ps)) = ack_bytes None @ extra @ conn_stream c'
    \<and> conn_stream c' = concat ps"
  using assms ack_one_piece [of extra ps]
  by (intro exI [of _ "idle_conn ([] # ps)"]) (simp add: ack_bytes_def bufio_size_def)

theorem bytes_after_ack_lost_witness:
  "\<exists>c'. ReadHandshakeAck (idle_conn ((ack_bytes None @ [104, 105]) # [[106]])) = Some (Inr (), c')
    \<and> conn_stream (idle_conn ((ack_bytes None @ [104, 105]) # [[106]])) = ack_bytes None @ [104, 105] @ conn_stream c'
    \<and> conn_stream c' = concat [[106]]"
  by (rule bytes_after_ack_lost) simp

text \<open>
  C26: the outcome of dialling the relay. With a connection that takes the handshake,
  \<open>ConnectToRelay\<close> always returns: the open connection when the relay acknowledges, and on
  a refusal the relay's message (its first 65535 bytes), with the connection closed; the
  handshake it sent is the one for its session and peer type.
\<close>

theorem ConnectToRelay_outcome:
  assumes "length sid \<le> 65535" and "\<not> conn_closed c" and "tx_room c = None"
    and "conn_stream c = ack_bytes reply @ rest"
  shows "\<exists>res c'. ConnectToRelay (Inr c) sid t = Some (res, Some c')
    \<and> tx c' = tx c @ handshake_bytes \<lparr>hs_SessionID = sid, hs_PeerType = t\<rparr>
    \<and> (case reply of
         None \<Rightarrow> res = Inr c' \<and> \<not> conn_closed c'
       | Some msg \<Rightarrow> res = Inl (ConnectAck (AckFailed (take 65535 msg))) \<and> conn_closed c')"
proof -
  let ?m = "\<lparr>hs_SessionID = sid, hs_PeerType = t\<rparr>"
  define d where "d = c\<lparr>tx := tx c @ handshake_bytes ?m\<rparr>"
  have w: "WriteHandshake c sid t = (None, d)"
    using assms(1-3) by (simp add: WriteHandshake_bytes conn_write_ok d_def)
  have s: "conn_stream d = ack_bytes reply @ rest"
    using assms(2,4) by (simp add: d_def conn_stream_def)
  obtain c' where c': "ReadHandshakeAck d = Some (fst (parse_ack (ack_bytes reply @ rest) (conn_end d)), c')"
    and "outgoing c' = outgoing d"
    using ReadHandshakeAck_stream [of d] unfolding s by blast
  then have o: "tx c' = tx c @ handshake_bytes ?m" "\<not> conn_closed c'"
    using assms(2) by (simp_all add: outgoing_eq_iff d_def)
  show ?thesis
    using w c' o
    by (cases reply) (auto simp: ConnectToRelay_def parse_ack_bytes conn_close_simps)
qed

theorem ConnectToRelay_outcome_witness:
  "\<exists>res c'. ConnectToRelay (Inr (idle_conn [ack_bytes (Some ''full'')])) ''s1'' PeerTypeResponder = Some (res, Some c')
    \<and> res = Inl (ConnectAck (AckFailed ''full'')) \<and> conn_closed c'"
  using ConnectToRelay_outcome [of "''s1''" "idle_conn [ack_bytes (Some ''full'')]" "Some ''full''" "[]" PeerTypeResponder]
  by auto

end
