(* ===== verification/Relay_Server.thy ===== *)
theory Relay_Server
  imports Relay_Session Handshake
begin

text \<open>
  \<open>internal/relay/server.go\<close>: the relay server. Its state is the table of sessions, the
  sessions themselves (shared by pointer between the table and the goroutines), the
  connections, and its goroutines: one handler per accepted connection, and the relaying
  goroutine a handler may start. A handler is modelled with its local variables and a
  program counter that stops wherever the code takes a lock, enters a session method or
  writes to the connection; each segment between two stops is one function of the state,
  and a step of the server is one segment of any goroutine.
\<close>

section \<open>Configuration\<close>

definition DefaultRelayPort :: nat where "DefaultRelayPort = 10988"
definition RelayBufferSize :: nat where "RelayBufferSize = 32 * 1024"
definition HandshakeTimeout :: nat where "HandshakeTimeout = 30"  \<comment> \<open>seconds\<close>
definition DefaultQuotaBytes :: "64 word" where "DefaultQuotaBytes = 1 * 1024 * 1024 * 1024"
definition DefaultQuotaRate :: int where "DefaultQuotaRate = 125 * 1024"

record config =
  Addr :: string
  MaxSessions :: int
  cfg_QuotaBytes :: "64 word"
  cfg_QuotaRate :: int

definition DefaultRelayConfig :: config where
  "DefaultRelayConfig = \<lparr>Addr = '':10988'', MaxSessions = 1000, cfg_QuotaBytes = DefaultQuotaBytes,
     cfg_QuotaRate = DefaultQuotaRate\<rparr>"

section \<open>Goroutines\<close>

text \<open>
  Where a handler stands: before the handshake; before the locked lookup; before
  \<open>AddPeer\<close>; before the positive acknowledgment; before the final \<open>PeerCount\<close>; before
  the locked clean-up of a rejected peer; done.
\<close>

datatype pc = Absent | Reading | Locking | Adding | Acking | Counting | Cleaning | Finished

record handler =
  at :: pc
  handshake_id :: string    \<comment> \<open>\<open>handshake.SessionID\<close>\<close>
  session_ref :: nat        \<comment> \<open>the local \<open>session\<close>\<close>

text \<open>One direction of \<open>io.Copy\<close>, with the bytes copied so far.\<close>

datatype copier =
    CopyRead nat                 \<comment> \<open>about to read\<close>
  | CopyWrite "byte list" nat    \<comment> \<open>about to write what it read\<close>
  | CopyEnd nat                  \<comment> \<open>\<open>io.Copy\<close> has returned\<close>
  | CopyDone                     \<comment> \<open>after \<open>AddBytes\<close> and the close\<close>

datatype relayer =
    NoRelay
  | Starting                             \<comment> \<open>the goroutine runs, before \<open>GetPeers\<close>\<close>
  | Copying conn_id conn_id copier copier \<comment> \<open>peers 0 and 1, directions 0 to 1 and 1 to 0\<close>
  | Ended                                \<comment> \<open>\<open>relaySession\<close> has returned\<close>
  | Gone                                 \<comment> \<open>the table entry is deleted\<close>

datatype closer = CloseIdle | CloseMarked | CloseCleared | CloseReturned

record server =
  cfg :: config
  sessions :: "(string, nat) gomap"
  heap :: "nat \<Rightarrow> session"
  next_ref :: nat
  done_ch :: bool  \<comment> \<open>the channel \<open>done\<close> is closed\<close>
  listening :: bool
  accepting :: bool  \<comment> \<open>\<open>acceptLoop\<close> has not returned\<close>
  closing :: closer
  conns :: "conn_id \<Rightarrow> conn"
  handlers :: "conn_id \<Rightarrow> handler"
  relayers :: "conn_id \<Rightarrow> relayer"

definition idle_handler :: handler where
  "idle_handler = \<lparr>at = Absent, handshake_id = [], session_ref = 0\<rparr>"

text \<open>\<open>NewServer\<close> and \<open>Start\<close>, over the connections that may come.\<close>

definition start_server :: "config \<Rightarrow> (conn_id \<Rightarrow> conn) \<Rightarrow> server" where
  "start_server c k = \<lparr>cfg = c, sessions = [], heap = (\<lambda>_. new_session [] 0 0 0), next_ref = 0,
     done_ch = False, listening = True, accepting = True, closing = CloseIdle, conns = k,
     handlers = (\<lambda>_. idle_handler), relayers = (\<lambda>_. NoRelay)\<rparr>"

definition SessionCount :: "server \<Rightarrow> nat" where
  "SessionCount s = length (sessions s)"

definition isClosed :: "server \<Rightarrow> bool" where
  "isClosed s = done_ch s"

definition goto :: "conn_id \<Rightarrow> pc \<Rightarrow> server \<Rightarrow> server" where
  "goto c p s = s\<lparr>handlers := (handlers s)(c := (handlers s c)\<lparr>at := p\<rparr>)\<rparr>"

definition set_conn :: "conn_id \<Rightarrow> conn \<Rightarrow> server \<Rightarrow> server" where
  "set_conn c k s = s\<lparr>conns := (conns s)(c := k)\<rparr>"

definition set_session :: "nat \<Rightarrow> session \<Rightarrow> server \<Rightarrow> server" where
  "set_session r x s = s\<lparr>heap := (heap s)(r := x)\<rparr>"

text \<open>\<open>WriteHandshakeAck(conn, false, msg); conn.Close()\<close>.\<close>

definition refuse :: "conn_id \<Rightarrow> string \<Rightarrow> server \<Rightarrow> server" where
  "refuse c msg s = set_conn c (conn_close (snd (WriteHandshakeAck (conns s c) False msg))) s"

section \<open>The handler, segment by segment\<close>

text \<open>
  \<open>acceptLoop\<close>: a connection comes in and its handler is started; the loop then goes on
  to the next \<open>Accept\<close> unless the server is being closed. When \<open>Accept\<close> fails, the loop
  returns if the server is being closed, and tries again otherwise.
\<close>

definition accept :: "conn_id \<Rightarrow> server \<Rightarrow> server" where
  "accept c s = goto c Reading (s\<lparr>accepting := \<not> isClosed s\<rparr>)"

definition accept_error :: "server \<Rightarrow> server" where
  "accept_error s = (if isClosed s then s\<lparr>accepting := False\<rparr> else s)"

text \<open>The handshake, read before any lock is taken. (\<open>ReadHandshake\<close> always returns.)\<close>

definition handle_read :: "(string \<Rightarrow> string) \<Rightarrow> conn_id \<Rightarrow> server \<Rightarrow> server" where
  "handle_read quote c s =
     (case ReadHandshake (conns s c) of
        None \<Rightarrow> s
      | Some (Inl err, k) \<Rightarrow>
          goto c Finished (refuse c (handshake_error_text quote err) (set_conn c k s))
      | Some (Inr m, k) \<Rightarrow>
          goto c Locking ((set_conn c k s)
            \<lparr>handlers := (handlers s)(c := (handlers s c)\<lparr>handshake_id := hs_SessionID m\<rparr>)\<rparr>))"

text \<open>The locked section: look the session up, or create it if there is room.\<close>

definition handle_lock :: "int \<Rightarrow> conn_id \<Rightarrow> server \<Rightarrow> server" where
  "handle_lock now c s =
     (let i = handshake_id (handlers s c)
      in case map_of (sessions s) i of
           Some r \<Rightarrow> goto c Adding (s\<lparr>handlers := (handlers s)(c := (handlers s c)\<lparr>session_ref := r\<rparr>)\<rparr>)
         | None \<Rightarrow>
             if MaxSessions (cfg s) \<le> int (length (sessions s))
             then goto c Finished (refuse c ''max sessions reached'' s)
             else let r = next_ref s
                  in goto c Adding (s\<lparr>
                       heap := (heap s)(r := new_session i now (cfg_QuotaBytes (cfg s)) (cfg_QuotaRate (cfg s))),
                       next_ref := Suc r,
                       sessions := AList.update i r (sessions s),
                       handlers := (handlers s)(c := (handlers s c)\<lparr>session_ref := r\<rparr>)\<rparr>))"

text \<open>\<open>session.AddPeer(conn)\<close>; a full session refuses and closes the connection.\<close>

definition handle_add :: "conn_id \<Rightarrow> server \<Rightarrow> server" where
  "handle_add c s =
     (let r = session_ref (handlers s c)
      in case AddPeer (Some c) (heap s r) of
           (None, x) \<Rightarrow> goto c Acking (set_session r x s)
         | (Some e, _) \<Rightarrow> goto c Cleaning (refuse c (relay_error_text e) s))"

text \<open>The locked clean-up after a refusal: delete the session if it has no peer.\<close>

definition handle_clean :: "conn_id \<Rightarrow> server \<Rightarrow> server" where
  "handle_clean c s =
     goto c Finished
       (if PeerCount (heap s (session_ref (handlers s c))) = 0
        then s\<lparr>sessions := AList.delete (handshake_id (handlers s c)) (sessions s)\<rparr> else s)"

text \<open>The positive acknowledgment; if it cannot be written the connection is closed.\<close>

definition handle_ack :: "conn_id \<Rightarrow> server \<Rightarrow> server" where
  "handle_ack c s =
     (case WriteHandshakeAck (conns s c) True [] of
        (None, k) \<Rightarrow> goto c Counting (set_conn c k s)
      | (Some e, k) \<Rightarrow> goto c Finished (set_conn c (conn_close k) s))"

text \<open>The last check: with two peers, start the relaying goroutine.\<close>

definition handle_count :: "conn_id \<Rightarrow> server \<Rightarrow> server" where
  "handle_count c s =
     goto c Finished
       (if PeerCount (heap s (session_ref (handlers s c))) = 2
        then s\<lparr>relayers := (relayers s)(c := Starting)\<rparr> else s)"

text \<open>What the handler of \<open>c\<close> does next.\<close>

definition handler_segment :: "(string \<Rightarrow> string) \<Rightarrow> int \<Rightarrow> conn_id \<Rightarrow> server \<Rightarrow> server" where
  "handler_segment quote now c s =
     (case at (handlers s c) of
        Reading \<Rightarrow> handle_read quote c s
      | Locking \<Rightarrow> handle_lock now c s
      | Adding \<Rightarrow> handle_add c s
      | Acking \<Rightarrow> handle_ack c s
      | Counting \<Rightarrow> handle_count c s
      | Cleaning \<Rightarrow> handle_clean c s
      | _ \<Rightarrow> s)"

text \<open>\<open>handleConnection\<close> without interruption: at most five segments.\<close>

definition handleConnection :: "(string \<Rightarrow> string) \<Rightarrow> int \<Rightarrow> conn_id \<Rightarrow> server \<Rightarrow> server" where
  "handleConnection quote now c s = (handler_segment quote now c ^^ 5) (accept c s)"

section \<open>The relaying goroutine\<close>

definition set_relayer :: "conn_id \<Rightarrow> relayer \<Rightarrow> server \<Rightarrow> server" where
  "set_relayer c x s = s\<lparr>relayers := (relayers s)(c := x)\<rparr>"

text \<open>\<open>relaySession\<close> up to the two \<open>go\<close> statements.\<close>

definition relay_start :: "conn_id \<Rightarrow> server \<Rightarrow> server" where
  "relay_start c s =
     (case GetPeers (heap s (session_ref (handlers s c))) of
        [p, q] \<Rightarrow> set_relayer c (Copying p q (CopyRead 0) (CopyRead 0)) s
      | _ \<Rightarrow> set_relayer c Ended s)"

text \<open>
  One step of \<open>io.Copy(dst, src)\<close> (which reads 32 KiB at a time), then of the code after it: count
  the bytes in the session and close the destination.
\<close>

definition io_copy_buffer :: nat where "io_copy_buffer = 32 * 1024"

definition copy_step :: "nat \<Rightarrow> conn_id \<Rightarrow> conn_id \<Rightarrow> copier \<Rightarrow> server \<Rightarrow> copier \<times> server" where
  "copy_step r src dst x s =
     (case x of
        CopyRead n \<Rightarrow>
          (case conn_read io_copy_buffer (conns s src) of
             (Inr bs, k) \<Rightarrow> (CopyWrite bs n, set_conn src k s)
           | (Inl e, k) \<Rightarrow> (CopyEnd n, set_conn src k s))
      | CopyWrite bs n \<Rightarrow>
          (case conn_write bs (conns s dst) of
             (None, k) \<Rightarrow> (CopyRead (n + length bs), set_conn dst k s)
           | (Some e, k) \<Rightarrow> (CopyEnd (n + (length (tx k) - length (tx (conns s dst)))), set_conn dst k s))
      | CopyEnd n \<Rightarrow>
          (CopyDone, set_conn dst (conn_close (conns s dst))
             (set_session r (AddBytes (word_of_nat n) (heap s r)) s))
      | CopyDone \<Rightarrow> (CopyDone, s))"

definition copy_forward :: "conn_id \<Rightarrow> server \<Rightarrow> server" where
  "copy_forward c s =
     (case relayers s c of
        Copying p q x y \<Rightarrow> (case copy_step (session_ref (handlers s c)) p q x s of
            (x', s') \<Rightarrow> set_relayer c (Copying p q x' y) s')
      | _ \<Rightarrow> s)"

definition copy_back :: "conn_id \<Rightarrow> server \<Rightarrow> server" where
  "copy_back c s =
     (case relayers s c of
        Copying p q x y \<Rightarrow> (case copy_step (session_ref (handlers s c)) q p y s of
            (y', s') \<Rightarrow> set_relayer c (Copying p q x y') s')
      | _ \<Rightarrow> s)"

definition close_conns :: "conn_id list \<Rightarrow> server \<Rightarrow> server" where
  "close_conns cs s = s\<lparr>conns := (\<lambda>c. if c \<in> set cs then conn_close (conns s c) else conns s c)\<rparr>"

text \<open>\<open>wg.Wait(); session.Close()\<close>.\<close>

definition relay_finish :: "conn_id \<Rightarrow> server \<Rightarrow> server" where
  "relay_finish c s =
     (case relayers s c of
        Copying p q CopyDone CopyDone \<Rightarrow>
          (let r = session_ref (handlers s c)
           in case Close (heap s r) of
                (cs, x) \<Rightarrow> set_relayer c Ended (close_conns cs (set_session r x s)))
      | _ \<Rightarrow> s)"

text \<open>The locked clean-up after \<open>relaySession\<close>: delete by session id.\<close>

definition relay_cleanup :: "conn_id \<Rightarrow> server \<Rightarrow> server" where
  "relay_cleanup c s =
     set_relayer c Gone
       (s\<lparr>sessions := AList.delete (handshake_id (handlers s c)) (sessions s)\<rparr>)"

section \<open>Closing the server\<close>

definition close_mark :: "server \<Rightarrow> server" where
  "close_mark s = s\<lparr>done_ch := True, closing := CloseMarked\<rparr>"

text \<open>The loop over the table: close each session and delete its entry.\<close>

fun close_sessions :: "(string \<times> nat) list \<Rightarrow> server \<Rightarrow> server" where
  "close_sessions [] s = s"
| "close_sessions ((i, r) # es) s =
     (case Close (heap s r) of
        (cs, x) \<Rightarrow> close_sessions es
          ((close_conns cs (set_session r x s))\<lparr>sessions := AList.delete i (sessions s)\<rparr>))"

definition close_clear :: "server \<Rightarrow> server" where
  "close_clear s = (close_sessions (sessions s) s)\<lparr>closing := CloseCleared\<rparr>"

definition close_listener :: "server \<Rightarrow> server" where
  "close_listener s = s\<lparr>listening := False, closing := CloseReturned\<rparr>"

section \<open>Steps\<close>

inductive relay_step :: "(string \<Rightarrow> string) \<Rightarrow> server \<Rightarrow> server \<Rightarrow> bool" for quote where
  Accept: "listening s \<Longrightarrow> accepting s \<Longrightarrow> at (handlers s c) = Absent \<Longrightarrow> relay_step quote s (accept c s)"
| AcceptError: "accepting s \<Longrightarrow> relay_step quote s (accept_error s)"
| Read: "at (handlers s c) = Reading \<Longrightarrow> relay_step quote s (handle_read quote c s)"
| Lock: "at (handlers s c) = Locking \<Longrightarrow> relay_step quote s (handle_lock now c s)"
| Add: "at (handlers s c) = Adding \<Longrightarrow> relay_step quote s (handle_add c s)"
| Ack: "at (handlers s c) = Acking \<Longrightarrow> relay_step quote s (handle_ack c s)"
| Count: "at (handlers s c) = Counting \<Longrightarrow> relay_step quote s (handle_count c s)"
| Clean: "at (handlers s c) = Cleaning \<Longrightarrow> relay_step quote s (handle_clean c s)"
| Relay: "relayers s c = Starting \<Longrightarrow> relay_step quote s (relay_start c s)"
| Forward: "relayers s c = Copying p q x y \<Longrightarrow> relay_step quote s (copy_forward c s)"
| Back: "relayers s c = Copying p q x y \<Longrightarrow> relay_step quote s (copy_back c s)"
| Finish: "relayers s c = Copying p q CopyDone CopyDone \<Longrightarrow> relay_step quote s (relay_finish c s)"
| Cleanup: "relayers s c = Ended \<Longrightarrow> relay_step quote s (relay_cleanup c s)"
| CloseMark: "closing s = CloseIdle \<Longrightarrow> relay_step quote s (close_mark s)"
| CloseClear: "closing s = CloseMarked \<Longrightarrow> relay_step quote s (close_clear s)"
| CloseListener: "closing s = CloseCleared \<Longrightarrow> relay_step quote s (close_listener s)"

definition relay_init :: "server \<Rightarrow> bool" where
  "relay_init s \<longleftrightarrow> (\<exists>c k. s = start_server c k)"

section \<open>The invariant\<close>

text \<open>
  The table has one entry per id, stays within the configured bound, and each entry leads
  to an allocated session with that id.
\<close>

definition inv_table :: "server \<Rightarrow> bool" where
  "inv_table s \<longleftrightarrow> gomap_ok (sessions s) \<and> int (length (sessions s)) \<le> max 0 (MaxSessions (cfg s))
     \<and> (\<forall>i r. map_of (sessions s) i = Some r \<longrightarrow> r < next_ref s \<and> ID (heap s r) = i)"

text \<open>
  A peer of a session is a connection whose handler looked up that session under the id of
  its own handshake and got past \<open>AddPeer\<close>.
\<close>

definition inv_session :: "server \<Rightarrow> nat \<Rightarrow> bool" where
  "inv_session s r \<longleftrightarrow> session_ok (heap s r) \<and>
     (\<forall>c \<in> set (GetPeers (heap s r)). at (handlers s c) \<in> {Acking, Counting, Finished}
        \<and> session_ref (handlers s c) = r \<and> handshake_id (handlers s c) = ID (heap s r))"

definition inv_handler :: "server \<Rightarrow> conn_id \<Rightarrow> bool" where
  "inv_handler s c \<longleftrightarrow>
     (let h = handlers s c; x = heap s (session_ref h)
      in (at h \<in> {Adding, Acking, Counting, Cleaning} \<longrightarrow> session_ref h < next_ref s \<and> ID x = handshake_id h)
       \<and> (at h \<in> {Acking, Counting} \<longrightarrow> c \<in> set (GetPeers x))
       \<and> (at h = Cleaning \<longrightarrow> peerCount x = 2))"

definition inv_relayer :: "server \<Rightarrow> conn_id \<Rightarrow> bool" where
  "inv_relayer s c \<longleftrightarrow>
     (let h = handlers s c; x = heap s (session_ref h)
      in relayers s c \<noteq> NoRelay \<longrightarrow> at h = Finished \<and> session_ref h < next_ref s
        \<and> ID x = handshake_id h \<and> peerCount x = 2 \<and> c \<in> set (GetPeers x)
        \<and> (case relayers s c of Copying p q _ _ \<Rightarrow> GetPeers x = [p, q] | _ \<Rightarrow> True))"

definition relay_inv :: "server \<Rightarrow> bool" where
  "relay_inv s \<longleftrightarrow> inv_table s \<and> (\<forall>r < next_ref s. inv_session s r)
     \<and> (\<forall>c. inv_handler s c) \<and> (\<forall>c. inv_relayer s c)"

lemmas inv_defs = inv_session_def inv_handler_def inv_relayer_def Let_def

lemma relay_invI:
  assumes "inv_table s" and "\<And>r. r < next_ref s \<Longrightarrow> inv_session s r"
    and "\<And>c. inv_handler s c" and "\<And>c. inv_relayer s c"
  shows "relay_inv s"
  using assms by (simp add: relay_inv_def)

lemma relay_invD:
  assumes "relay_inv s"
  shows "inv_table s" and "r < next_ref s \<Longrightarrow> inv_session s r" and "inv_handler s c" and "inv_relayer s c"
  using assms by (simp_all add: relay_inv_def)

text \<open>The invariant does not look at the connections, nor at the closing of the server.\<close>

lemma relay_inv_frame [simp]:
  "relay_inv (s\<lparr>conns := k\<rparr>) = relay_inv s" "relay_inv (set_conn c x s) = relay_inv s"
  "relay_inv (refuse c m s) = relay_inv s" "relay_inv (close_conns cs s) = relay_inv s"
  "relay_inv (s\<lparr>done_ch := b\<rparr>) = relay_inv s" "relay_inv (s\<lparr>listening := b\<rparr>) = relay_inv s"
  "relay_inv (s\<lparr>closing := z\<rparr>) = relay_inv s" "relay_inv (s\<lparr>accepting := b\<rparr>) = relay_inv s"
  by (simp_all add: relay_inv_def inv_table_def inv_defs set_conn_def refuse_def close_conns_def)

lemma server_frame [simp]:
  "sessions (goto c p s) = sessions s" "heap (goto c p s) = heap s" "next_ref (goto c p s) = next_ref s"
  "cfg (goto c p s) = cfg s" "conns (goto c p s) = conns s" "relayers (goto c p s) = relayers s"
  "handlers (goto c p s) = (handlers s)(c := (handlers s c)\<lparr>at := p\<rparr>)"
  "sessions (set_conn c k s) = sessions s" "heap (set_conn c k s) = heap s" "next_ref (set_conn c k s) = next_ref s"
  "cfg (set_conn c k s) = cfg s" "handlers (set_conn c k s) = handlers s" "relayers (set_conn c k s) = relayers s"
  "conns (set_conn c k s) = (conns s)(c := k)"
  "sessions (set_session r x s) = sessions s" "heap (set_session r x s) = (heap s)(r := x)"
  "next_ref (set_session r x s) = next_ref s" "cfg (set_session r x s) = cfg s"
  "handlers (set_session r x s) = handlers s" "relayers (set_session r x s) = relayers s"
  "conns (set_session r x s) = conns s"
  "sessions (set_relayer c y s) = sessions s" "heap (set_relayer c y s) = heap s"
  "next_ref (set_relayer c y s) = next_ref s" "cfg (set_relayer c y s) = cfg s"
  "handlers (set_relayer c y s) = handlers s" "relayers (set_relayer c y s) = (relayers s)(c := y)"
  "conns (set_relayer c y s) = conns s"
  "sessions (refuse c m s) = sessions s" "heap (refuse c m s) = heap s" "next_ref (refuse c m s) = next_ref s"
  "cfg (refuse c m s) = cfg s" "handlers (refuse c m s) = handlers s" "relayers (refuse c m s) = relayers s"
  "sessions (close_conns cs s) = sessions s" "heap (close_conns cs s) = heap s"
  "next_ref (close_conns cs s) = next_ref s" "cfg (close_conns cs s) = cfg s"
  "handlers (close_conns cs s) = handlers s" "relayers (close_conns cs s) = relayers s"
  by (simp_all add: goto_def set_conn_def set_session_def set_relayer_def refuse_def close_conns_def)

lemma accept_error_frame [simp]:
  "relayers (accept_error s) = relayers s" "handlers (accept_error s) = handlers s"
  "conns (accept_error s) = conns s" "sessions (accept_error s) = sessions s" "heap (accept_error s) = heap s"
  by (simp_all add: accept_error_def)

lemma inv_no_relayer: "relay_inv s \<Longrightarrow> at (handlers s c) \<noteq> Finished \<Longrightarrow> relayers s c = NoRelay"
  using relay_invD(4) [of s c] by (auto simp: inv_defs)

lemma inv_not_peer:
  "relay_inv s \<Longrightarrow> r < next_ref s \<Longrightarrow> at (handlers s c) \<notin> {Acking, Counting, Finished} \<Longrightarrow>
     c \<notin> set (GetPeers (heap s r))"
  using relay_invD(2) [of s r] by (auto simp: inv_defs)

text \<open>
  Two ways to change the state: the locals of one handler that has started no relaying
  goroutine, and the peers of one session that is not full.
\<close>

lemma inv_set_handler:
  assumes inv: "relay_inv s" and no: "relayers s c = NoRelay"
    and peer: "\<And>r. r < next_ref s \<Longrightarrow> c \<in> set (GetPeers (heap s r)) \<Longrightarrow> at h \<in> {Acking, Counting, Finished}
        \<and> session_ref h = session_ref (handlers s c) \<and> handshake_id h = handshake_id (handlers s c)"
    and h: "inv_handler (s\<lparr>handlers := (handlers s)(c := h)\<rparr>) c"
  shows "relay_inv (s\<lparr>handlers := (handlers s)(c := h)\<rparr>)"
proof (rule relay_invI)
  let ?t = "s\<lparr>handlers := (handlers s)(c := h)\<rparr>"
  show "inv_table ?t" using relay_invD(1) [OF inv] by (simp add: inv_table_def)
  show "inv_session ?t r" if "r < next_ref ?t" for r
    using relay_invD(2) [OF inv, of r] peer [of r] that by (auto simp: inv_session_def)
  show "inv_handler ?t d" for d
    using relay_invD(3) [OF inv, of d] h by (cases "d = c") (auto simp: inv_handler_def Let_def)
  show "inv_relayer ?t d" for d
    using relay_invD(4) [OF inv, of d] no by (cases "d = c") (auto simp: inv_relayer_def Let_def)
qed

lemma inv_goto:
  assumes "relay_inv s" and "at (handlers s c) \<noteq> Finished"
    and "p = Finished \<or> p \<in> {Reading, Locking} \<and> at (handlers s c) \<notin> {Acking, Counting}
      \<or> p = Counting \<and> at (handlers s c) = Acking"
  shows "relay_inv (goto c p s)"
  unfolding goto_def
proof (rule inv_set_handler [OF assms(1)])
  show "relayers s c = NoRelay" using assms(1,2) by (rule inv_no_relayer)
  show "inv_handler (s\<lparr>handlers := (handlers s)(c := (handlers s c)\<lparr>at := p\<rparr>)\<rparr>) c"
    using assms relay_invD(3) [OF assms(1), of c] by (auto simp: inv_handler_def Let_def)
  fix r assume r: "r < next_ref s" "c \<in> set (GetPeers (heap s r))"
  with inv_not_peer [OF assms(1) r(1), of c] assms(2,3)
  show "at ((handlers s c)\<lparr>at := p\<rparr>) \<in> {Acking, Counting, Finished}
      \<and> session_ref ((handlers s c)\<lparr>at := p\<rparr>) = session_ref (handlers s c)
      \<and> handshake_id ((handlers s c)\<lparr>at := p\<rparr>) = handshake_id (handlers s c)"
    by auto
qed

lemma inv_delete_entry:
  assumes inv: "relay_inv s"
  shows "relay_inv (s\<lparr>sessions := AList.delete i (sessions s)\<rparr>)"
proof (rule relay_invI)
  let ?t = "s\<lparr>sessions := AList.delete i (sessions s)\<rparr>"
  have "length (AList.delete i (sessions s)) \<le> length (sessions s)" by (rule AList.length_delete_le)
  then show "inv_table ?t"
    using relay_invD(1) [OF inv] by (auto simp: inv_table_def gm.ok_del)
  show "inv_session ?t r" if "r < next_ref ?t" for r
    using relay_invD(2) [OF inv, of r] that by (simp add: inv_session_def)
  show "inv_handler ?t c" for c using relay_invD(3) [OF inv, of c] by (simp add: inv_handler_def)
  show "inv_relayer ?t c" for c using relay_invD(4) [OF inv, of c] by (simp add: inv_relayer_def)
qed

text \<open>Replacing a session by one with the same id and peers.\<close>

lemma inv_set_session:
  assumes inv: "relay_inv s" and x: "ID x = ID (heap s r)" "GetPeers x = GetPeers (heap s r)"
    "peerCount x = peerCount (heap s r)" "session_ok x = session_ok (heap s r)"
  shows "relay_inv (set_session r x s)"
proof (rule relay_invI)
  let ?t = "set_session r x s"
  show "inv_table ?t" using relay_invD(1) [OF inv] x by (auto simp: inv_table_def)
  show "inv_session ?t q" if "q < next_ref ?t" for q
    using relay_invD(2) [OF inv, of q] that x by (auto simp: inv_session_def)
  show "inv_handler ?t c" for c
    using relay_invD(3) [OF inv, of c] x by (auto simp: inv_handler_def Let_def)
  show "inv_relayer ?t c" for c
    using relay_invD(4) [OF inv, of c] x by (auto simp: inv_relayer_def Let_def split: relayer.splits)
qed

lemma inv_set_relayer:
  assumes inv: "relay_inv s" and "inv_relayer (set_relayer c y s) c"
  shows "relay_inv (set_relayer c y s)"
proof (rule relay_invI)
  let ?t = "set_relayer c y s"
  show "inv_table ?t" using relay_invD(1) [OF inv] by (simp add: inv_table_def)
  show "inv_session ?t q" if "q < next_ref ?t" for q
    using relay_invD(2) [OF inv, of q] that by (simp add: inv_session_def)
  show "inv_handler ?t d" for d using relay_invD(3) [OF inv, of d] by (simp add: inv_handler_def)
  show "inv_relayer ?t d" for d
    using relay_invD(4) [OF inv, of d] assms(2) by (cases "d = c") (simp_all add: inv_relayer_def)
qed

text \<open>A fresh session under a new id, if there is room.\<close>

definition alloc :: "string \<Rightarrow> session \<Rightarrow> server \<Rightarrow> server" where
  "alloc i x s = s\<lparr>heap := (heap s)(next_ref s := x), next_ref := Suc (next_ref s),
     sessions := AList.update i (next_ref s) (sessions s)\<rparr>"

lemma inv_alloc:
  assumes inv: "relay_inv s" and room: "\<not> MaxSessions (cfg s) \<le> int (length (sessions s))"
    and x: "ID x = i" "GetPeers x = []" "session_ok x"
  shows "relay_inv (alloc i x s)"
proof (rule relay_invI)
  let ?t = "alloc i x s"
  show "inv_table ?t"
    using relay_invD(1) [OF inv] room x(1)
    by (auto simp: inv_table_def alloc_def gm.ok_put length_AList_update less_Suc_eq split: if_splits)
  show "inv_session ?t r" if "r < next_ref ?t" for r
    using relay_invD(2) [OF inv, of r] that x by (auto simp: inv_session_def alloc_def less_Suc_eq)
  show "inv_handler ?t c" for c
    using relay_invD(3) [OF inv, of c] by (auto simp: inv_handler_def Let_def alloc_def)
  show "inv_relayer ?t c" for c
    using relay_invD(4) [OF inv, of c] by (auto simp: inv_relayer_def Let_def alloc_def)
qed

section \<open>Every segment keeps the invariant\<close>

lemma accept_inv: "relay_inv s \<Longrightarrow> at (handlers s c) = Absent \<Longrightarrow> relay_inv (accept c s)"
  unfolding accept_def by (rule inv_goto) auto

lemma handle_read_inv:
  assumes inv: "relay_inv s" and at: "at (handlers s c) = Reading"
  shows "relay_inv (handle_read quote c s)"
proof -
  have ok: "relay_inv (goto c Locking ((set_conn c k s)
      \<lparr>handlers := (handlers s)(c := (handlers s c)\<lparr>handshake_id := i\<rparr>)\<rparr>))" for k i
  proof (rule inv_goto)
    have "relay_inv ((set_conn c k s)\<lparr>handlers := (handlers (set_conn c k s))
        (c := (handlers s c)\<lparr>handshake_id := i\<rparr>)\<rparr>)"
      by (rule inv_set_handler)
        (use inv at inv_no_relayer [OF inv, of c] inv_not_peer [OF inv, of _ c] in
          \<open>auto simp: inv_handler_def Let_def\<close>)
    then show "relay_inv ((set_conn c k s)\<lparr>handlers := (handlers s)(c := (handlers s c)\<lparr>handshake_id := i\<rparr>)\<rparr>)"
      by simp
  qed (use at in auto)
  have no: "relay_inv (goto c Finished (refuse c m (set_conn c k s)))" for m k
    by (rule inv_goto) (use inv at in auto)
  show ?thesis
    unfolding handle_read_def using ok no inv by (auto split: option.split sum.split prod.split)
qed

lemma handle_lock_inv:
  assumes inv: "relay_inv s" and at: "at (handlers s c) = Locking"
  shows "relay_inv (handle_lock now c s)"
proof -
  let ?i = "handshake_id (handlers s c)" and ?h = "\<lambda>r. (handlers s c)\<lparr>session_ref := r, at := Adding\<rparr>"
  have enter: "relay_inv (t\<lparr>handlers := (handlers t)(c := ?h r)\<rparr>)"
    if t: "relay_inv t" "handlers t = handlers s" and r: "map_of (sessions t) ?i = Some r" for t r
  proof (rule inv_set_handler [OF t(1)])
    show "relayers t c = NoRelay" using inv_no_relayer [OF t(1), of c] t(2) at by simp
    show "inv_handler (t\<lparr>handlers := (handlers t)(c := ?h r)\<rparr>) c"
      using relay_invD(1) [OF t(1)] r by (auto simp: inv_handler_def inv_table_def Let_def)
  qed (use inv_not_peer [OF t(1), of _ c] t(2) at in auto)
  show ?thesis
  proof (cases "map_of (sessions s) ?i")
    case (Some r)
    with enter [OF inv refl Some] show ?thesis by (simp add: handle_lock_def Let_def goto_def)
  next
    case None
    let ?x = "new_session ?i now (cfg_QuotaBytes (cfg s)) (cfg_QuotaRate (cfg s))"
    show ?thesis
    proof (cases "MaxSessions (cfg s) \<le> int (length (sessions s))")
      case True
      with None inv at show ?thesis
        by (auto simp: handle_lock_def Let_def intro!: inv_goto)
    next
      case False
      have "relay_inv (alloc ?i ?x s)"
        using inv False by (rule inv_alloc) (simp_all add: new_session_def [THEN arg_cong [where f = ID]])
      from enter [OF this] None False show ?thesis
        by (simp add: handle_lock_def Let_def goto_def alloc_def)
    qed
  qed
qed

lemma handle_add_inv:
  assumes inv: "relay_inv s" and at: "at (handlers s c) = Adding"
  shows "relay_inv (handle_add c s)"
proof -
  let ?r = "session_ref (handlers s c)"
  let ?x = "heap s ?r"
  have r: "?r < next_ref s" and i: "ID ?x = handshake_id (handlers s c)"
    using relay_invD(3) [OF inv, of c] at by (auto simp: inv_handler_def Let_def)
  have ok: "session_ok ?x" using relay_invD(2) [OF inv r] by (simp add: inv_session_def)
  have fresh: "c \<notin> set (GetPeers (heap s q))" if "q < next_ref s" for q
    using inv_not_peer [OF inv that, of c] at by simp
  show ?thesis
  proof (cases "peerCount ?x < 2")
    case True
    let ?y = "snd (AddPeer (Some c) ?x)"
    have y: "GetPeers ?y = GetPeers ?x @ [c]" "session_ok ?y" "ID ?y = ID ?x"
      using GetPeers_AddPeer [OF ok True] AddPeer_ok [OF ok fresh [OF r]] by simp_all
    have eq: "handle_add c s = goto c Acking (set_session ?r ?y s)"
      using True by (auto simp: handle_add_def AddPeer_def Let_def)
    have full: "?r \<noteq> session_ref (handlers s d)" if "relayers s d \<noteq> NoRelay \<or> at (handlers s d) = Cleaning" for d
      using relay_invD(3,4) [OF inv, of d] that True by (auto simp: inv_defs)
    show ?thesis
      unfolding eq
    proof (rule relay_invI)
      let ?t = "goto c Acking (set_session ?r ?y s)"
      show "inv_table ?t" using relay_invD(1) [OF inv] y(3) by (auto simp: inv_table_def)
      show "inv_session ?t q" if "q < next_ref ?t" for q
        using relay_invD(2) [OF inv, of q] that y i fresh [of q] by (auto simp: inv_session_def)
      show "inv_handler ?t d" for d
        using relay_invD(3) [OF inv, of d] y i r full [of d] by (auto simp: inv_handler_def Let_def)
      show "inv_relayer ?t d" for d
        using relay_invD(4) [OF inv, of d] at full [of d] by (auto simp: inv_relayer_def Let_def)
    qed
  next
    case False
    with ok have full: "peerCount ?x = 2" by (simp add: session_ok_def)
    have "relay_inv ((refuse c m s)\<lparr>handlers := (handlers (refuse c m s))(c := (handlers s c)\<lparr>at := Cleaning\<rparr>)\<rparr>)" for m
      by (rule inv_set_handler)
        (use inv at r i full inv_no_relayer [OF inv, of c] fresh in \<open>auto simp: inv_handler_def Let_def\<close>)
    with False show ?thesis by (simp add: handle_add_def AddPeer_def goto_def)
  qed
qed

lemma handle_clean_inv:
  assumes inv: "relay_inv s" and at: "at (handlers s c) = Cleaning"
  shows "relay_inv (handle_clean c s)"
  unfolding handle_clean_def
  by (rule inv_goto) (use inv at inv_delete_entry [OF inv] in auto)

lemma handle_ack_inv:
  assumes inv: "relay_inv s" and at: "at (handlers s c) = Acking"
  shows "relay_inv (handle_ack c s)"
  unfolding handle_ack_def
  by (auto split: option.split prod.split intro!: inv_goto simp: inv at)

lemma handle_count_inv:
  assumes inv: "relay_inv s" and at: "at (handlers s c) = Counting"
  shows "relay_inv (handle_count c s)"
proof (cases "peerCount (heap s (session_ref (handlers s c))) = 2")
  case True
  have fin: "relay_inv (goto c Finished s)" by (rule inv_goto) (use inv at in auto)
  have "relay_inv (set_relayer c Starting (goto c Finished s))"
    by (rule inv_set_relayer [OF fin])
      (use relay_invD(3) [OF inv, of c] at True in \<open>auto simp: inv_defs\<close>)
  moreover have "handle_count c s = set_relayer c Starting (goto c Finished s)"
    using True by (simp add: handle_count_def PeerCount_def goto_def set_relayer_def)
  ultimately show ?thesis by simp
next
  case False
  with inv at show ?thesis
    by (auto simp: handle_count_def PeerCount_def intro!: inv_goto)
qed

lemma relay_start_inv:
  assumes inv: "relay_inv s" and st: "relayers s c = Starting"
  shows "relay_inv (relay_start c s)"
proof -
  have "inv_relayer s c" by (rule relay_invD(4) [OF inv])
  with st have "inv_relayer (set_relayer c Ended s) c"
    and "\<And>p q x y. GetPeers (heap s (session_ref (handlers s c))) = [p, q] \<Longrightarrow>
      inv_relayer (set_relayer c (Copying p q x y) s) c"
    by (simp_all add: inv_relayer_def Let_def)
  with inv show ?thesis
    unfolding relay_start_def by (auto split: list.split intro!: inv_set_relayer)
qed

lemma copy_step_frame:
  assumes "copy_step r src dst x s = (x', t)"
  shows "sessions t = sessions s" and "handlers t = handlers s" and "relayers t = relayers s"
    and "next_ref t = next_ref s" and "cfg t = cfg s" and "relay_inv s \<Longrightarrow> relay_inv t"
    and "ID (heap t q) = ID (heap s q)" and "GetPeers (heap t q) = GetPeers (heap s q)"
    and "peerCount (heap t q) = peerCount (heap s q)"
  using assms
  by (auto simp: copy_step_def split: copier.splits prod.splits sum.splits option.splits intro!: inv_set_session)

lemma copy_forward_inv:
  assumes inv: "relay_inv s" and c: "relayers s c = Copying p q x y"
  shows "relay_inv (copy_forward c s)"
proof -
  obtain x' t where t: "copy_step (session_ref (handlers s c)) p q x s = (x', t)" by fastforce
  note f = copy_step_frame [OF t]
  have "relay_inv (set_relayer c (Copying p q x' y) t)"
    by (rule inv_set_relayer [OF f(6) [OF inv]])
      (use relay_invD(4) [OF inv, of c] c in \<open>auto simp: inv_relayer_def Let_def f\<close>)
  with c t show ?thesis by (simp add: copy_forward_def)
qed

lemma copy_back_inv:
  assumes inv: "relay_inv s" and c: "relayers s c = Copying p q x y"
  shows "relay_inv (copy_back c s)"
proof -
  obtain y' t where t: "copy_step (session_ref (handlers s c)) q p y s = (y', t)" by fastforce
  note f = copy_step_frame [OF t]
  have "relay_inv (set_relayer c (Copying p q x y') t)"
    by (rule inv_set_relayer [OF f(6) [OF inv]])
      (use relay_invD(4) [OF inv, of c] c in \<open>auto simp: inv_relayer_def Let_def f\<close>)
  with c t show ?thesis by (simp add: copy_back_def)
qed

lemma close_session_inv:
  "relay_inv s \<Longrightarrow> relay_inv (close_conns cs (set_session r (snd (Close (heap s r))) s))"
  by (simp add: inv_set_session)

lemma relay_finish_inv:
  assumes inv: "relay_inv s" and c: "relayers s c = Copying p q CopyDone CopyDone"
  shows "relay_inv (relay_finish c s)"
proof -
  let ?r = "session_ref (handlers s c)"
  let ?t = "close_conns (fst (Close (heap s ?r))) (set_session ?r (snd (Close (heap s ?r))) s)"
  have "relay_inv (set_relayer c Ended ?t)"
    by (rule inv_set_relayer [OF close_session_inv [OF inv]])
      (use relay_invD(4) [OF inv, of c] c in \<open>auto simp: inv_relayer_def Let_def\<close>)
  with c show ?thesis by (simp add: relay_finish_def Let_def case_prod_beta)
qed

lemma relay_cleanup_inv:
  assumes inv: "relay_inv s" and c: "relayers s c = Ended"
  shows "relay_inv (relay_cleanup c s)"
  unfolding relay_cleanup_def
  by (rule inv_set_relayer [OF inv_delete_entry [OF inv]])
    (use relay_invD(4) [OF inv, of c] c in \<open>simp add: inv_relayer_def Let_def\<close>)

lemma close_sessions_inv: "relay_inv s \<Longrightarrow> relay_inv (close_sessions es s)"
proof (induction es s rule: close_sessions.induct)
  case (2 i r es s)
  let ?t = "close_conns (fst (Close (heap s r))) (set_session r (snd (Close (heap s r))) s)"
  have "relay_inv (?t\<lparr>sessions := AList.delete i (sessions ?t)\<rparr>)"
    by (rule inv_delete_entry [OF close_session_inv [OF "2.prems"]])
  with 2 show ?case by (simp add: case_prod_beta)
qed simp

section \<open>Reachable states\<close>

lemma relay_init_inv: "relay_init s \<Longrightarrow> relay_inv s"
  by (auto simp: relay_init_def start_server_def relay_inv_def inv_table_def inv_defs idle_handler_def
      gm.ok_empty)

lemma relay_step_inv: "relay_inv s \<Longrightarrow> relay_step quote s t \<Longrightarrow> relay_inv t"
  by (erule relay_step.cases)
    (auto intro: accept_inv handle_read_inv handle_lock_inv handle_add_inv handle_ack_inv handle_count_inv
      handle_clean_inv relay_start_inv copy_forward_inv copy_back_inv relay_finish_inv relay_cleanup_inv
      close_sessions_inv simp: accept_error_def close_mark_def close_clear_def close_listener_def)

interpretation relay: transition_system relay_init "relay_step quote" relay_inv for quote
  by unfold_locales (auto intro: relay_init_inv relay_step_inv)

end
