(* ===== verification/Relay_Properties.thy ===== *)
theory Relay_Properties
  imports Relay_Server
begin

text \<open>
  Properties of the relay server (\<open>Relay_Server\<close>): what holds in every reachable state,
  what two clients of one session get when they come one after the other, what the
  relaying goroutine delivers under every interleaving, and the races the handler leaves
  open.
\<close>

section \<open>Runs of one handler\<close>

lemma handler_segment_step:
  "at (handlers s c) \<in> {Reading, Locking, Adding, Acking, Counting, Cleaning} \<Longrightarrow>
   relay_step quote s (handler_segment quote now c s)"
  by (auto simp: handler_segment_def intro: relay_step.intros)

lemma handler_segment_idle: "at (handlers s c) \<in> {Absent, Finished} \<Longrightarrow> handler_segment quote now c s = s"
  by (auto simp: handler_segment_def)

lemma handler_segment_run: "(relay_step quote)\<^sup>*\<^sup>* s (handler_segment quote now c s)"
  using handler_segment_step [of s c quote now] handler_segment_idle [of s c quote now]
  by (cases "at (handlers s c)") auto

lemma handler_segments_run:
  "(relay_step quote)\<^sup>*\<^sup>* s ((handler_segment quote now c ^^ n) s)"
  by (induction n) (auto intro: rtranclp_trans handler_segment_run)

text \<open>The server takes connections.\<close>

definition serving :: "server \<Rightarrow> bool" where
  "serving s \<longleftrightarrow> listening s \<and> accepting s \<and> \<not> isClosed s"

lemma serving_frame [simp]:
  "serving (goto c p s) = serving s" "serving (set_conn c k s) = serving s" "serving (set_session r x s) = serving s"
  "serving (set_relayer c y s) = serving s" "serving (s\<lparr>handlers := h\<rparr>) = serving s" "serving (alloc i z s) = serving s"
  by (simp_all add: serving_def isClosed_def goto_def set_conn_def set_session_def set_relayer_def alloc_def)

lemma serving_accept [simp]: "serving s \<Longrightarrow> serving (accept c s)"
  by (simp add: serving_def isClosed_def accept_def goto_def)

lemma accept_frame [simp]:
  "handlers (accept c s) = (handlers s)(c := (handlers s c)\<lparr>at := Reading\<rparr>)" "conns (accept c s) = conns s"
  "sessions (accept c s) = sessions s" "heap (accept c s) = heap s" "next_ref (accept c s) = next_ref s"
  "cfg (accept c s) = cfg s" "relayers (accept c s) = relayers s"
  by (simp_all add: accept_def)

lemma accepted_run:
  "serving s \<Longrightarrow> at (handlers s c) = Absent \<Longrightarrow>
   (relay_step quote)\<^sup>*\<^sup>* s ((handler_segment quote now c ^^ n) (accept c s))"
  by (rule converse_rtranclp_into_rtranclp [OF relay_step.Accept handler_segments_run]) (simp_all add: serving_def)

lemma handleConnection_run:
  "serving s \<Longrightarrow> at (handlers s c) = Absent \<Longrightarrow> (relay_step quote)\<^sup>*\<^sup>* s (handleConnection quote now c s)"
  unfolding handleConnection_def by (rule accepted_run)

lemma reach_start: "reach relay_init (relay_step quote) (start_server c k)"
  by (rule reach_init) (auto simp: relay_init_def)

lemma start_server_simps [simp]:
  "cfg (start_server c k) = c" "sessions (start_server c k) = []" "next_ref (start_server c k) = 0"
  "conns (start_server c k) = k" "handlers (start_server c k) = (\<lambda>_. idle_handler)"
  "serving (start_server c k)" "relayers (start_server c k) = (\<lambda>_. NoRelay)" "closing (start_server c k) = CloseIdle"
  by (simp_all add: start_server_def serving_def isClosed_def)

lemma idle_handler_at [simp]: "at idle_handler = Absent"
  by (simp add: idle_handler_def)

section \<open>One segment at a time\<close>

text \<open>The segments of a handler that meets no error.\<close>

lemma handle_read_ok:
  "ReadHandshake (conns s c) = Some (Inr m, k) \<Longrightarrow> handle_read quote c s =
     goto c Locking ((set_conn c k s)\<lparr>handlers := (handlers s)(c := (handlers s c)\<lparr>handshake_id := hs_SessionID m\<rparr>)\<rparr>)"
  by (simp add: handle_read_def)

lemma handle_lock_new:
  "map_of (sessions s) (handshake_id (handlers s c)) = None \<Longrightarrow>
   int (length (sessions s)) < MaxSessions (cfg s) \<Longrightarrow> handle_lock now c s =
     goto c Adding ((alloc (handshake_id (handlers s c))
       (new_session (handshake_id (handlers s c)) now (cfg_QuotaBytes (cfg s)) (cfg_QuotaRate (cfg s))) s)
       \<lparr>handlers := (handlers s)(c := (handlers s c)\<lparr>session_ref := next_ref s\<rparr>)\<rparr>)"
  by (simp add: handle_lock_def Let_def alloc_def)

lemma handle_lock_found:
  "map_of (sessions s) (handshake_id (handlers s c)) = Some r \<Longrightarrow> handle_lock now c s =
     goto c Adding (s\<lparr>handlers := (handlers s)(c := (handlers s c)\<lparr>session_ref := r\<rparr>)\<rparr>)"
  by (simp add: handle_lock_def Let_def)

lemma handle_ack_ok:
  "\<not> conn_closed (conns s c) \<Longrightarrow> tx_room (conns s c) = None \<Longrightarrow> handle_ack c s =
     goto c Counting (set_conn c ((conns s c)\<lparr>tx := tx (conns s c) @ ack_bytes None\<rparr>) s)"
  by (simp add: handle_ack_def WriteHandshakeAck_bytes conn_write_ok)

lemma alloc_simps [simp]:
  "sessions (alloc i x s) = AList.update i (next_ref s) (sessions s)" "next_ref (alloc i x s) = Suc (next_ref s)"
  "heap (alloc i x s) = (heap s)(next_ref s := x)" "cfg (alloc i x s) = cfg s" "conns (alloc i x s) = conns s"
  "handlers (alloc i x s) = handlers s" "relayers (alloc i x s) = relayers s"
  by (simp_all add: alloc_def)

lemma handle_add_ok:
  "peerCount (heap s (session_ref (handlers s c))) < 2 \<Longrightarrow> handle_add c s =
     goto c Acking (set_session (session_ref (handlers s c))
       (snd (AddPeer (Some c) (heap s (session_ref (handlers s c))))) s)"
  by (auto simp: handle_add_def Let_def AddPeer_def)

lemma handler_segment_simps [simp]:
  "at (handlers s c) = Reading \<Longrightarrow> handler_segment quote now c s = handle_read quote c s"
  "at (handlers s c) = Locking \<Longrightarrow> handler_segment quote now c s = handle_lock now c s"
  "at (handlers s c) = Adding \<Longrightarrow> handler_segment quote now c s = handle_add c s"
  "at (handlers s c) = Acking \<Longrightarrow> handler_segment quote now c s = handle_ack c s"
  "at (handlers s c) = Counting \<Longrightarrow> handler_segment quote now c s = handle_count c s"
  "at (handlers s c) = Cleaning \<Longrightarrow> handler_segment quote now c s = handle_clean c s"
  "at (handlers s c) = Finished \<Longrightarrow> handler_segment quote now c s = s"
  by (simp_all add: handler_segment_def)

section \<open>Every reachable state\<close>

text \<open>
  C8: the session table is bounded. In every reachable state, however the goroutines
  interleave and whatever the clients send, there are at most \<open>MaxSessions\<close> sessions, no
  id has two entries, each entry leads to a session with that id, and no session has more
  than two peers.
\<close>

theorem sessions_bounded:
  assumes "reach relay_init (relay_step quote) s"
  shows "int (SessionCount s) \<le> max 0 (MaxSessions (cfg s)) \<and> distinct (map fst (sessions s))
    \<and> (\<forall>i r. map_of (sessions s) i = Some r \<longrightarrow> ID (heap s r) = i \<and> PeerCount (heap s r) \<le> 2
         \<and> length (GetPeers (heap s r)) = PeerCount (heap s r))"
proof -
  have inv: "relay_inv s" using assms by (rule relay.reach_inv)
  have t: "inv_table s" by (rule relay_invD(1) [OF inv])
  have "ID (heap s r) = i \<and> PeerCount (heap s r) \<le> 2 \<and> length (GetPeers (heap s r)) = PeerCount (heap s r)"
    if e: "map_of (sessions s) i = Some r" for i r
  proof -
    have r: "r < next_ref s" "ID (heap s r) = i" using t e by (auto simp: inv_table_def)
    have ok: "session_ok (heap s r)" using relay_invD(2) [OF inv r(1)] by (simp add: inv_session_def)
    then have "peerCount (heap s r) \<le> 2" by (simp add: session_ok_def)
    with r ok show ?thesis by (simp add: PeerCount_def length_GetPeers)
  qed
  with t show ?thesis by (auto simp: inv_table_def SessionCount_def gomap_ok_def)
qed

text \<open>
  C16: sessions are isolated. A goroutine that relays, relays between two different
  connections, one of them the connection whose handler started it; both sent that same
  session id in their handshakes.
\<close>

theorem relay_isolation:
  assumes "reach relay_init (relay_step quote) s" and "relayers s c = Copying p q x y"
  shows "p \<noteq> q \<and> c \<in> {p, q} \<and> handshake_id (handlers s p) = handshake_id (handlers s c)
    \<and> handshake_id (handlers s q) = handshake_id (handlers s c)
    \<and> session_ref (handlers s p) = session_ref (handlers s q)"
proof -
  have inv: "relay_inv s" using assms(1) by (rule relay.reach_inv)
  from relay_invD(4) [OF inv, of c] assms(2)
  have r: "session_ref (handlers s c) < next_ref s" and g: "GetPeers (heap s (session_ref (handlers s c))) = [p, q]"
    and c: "c \<in> {p, q}" and i: "ID (heap s (session_ref (handlers s c))) = handshake_id (handlers s c)"
    by (auto simp: inv_relayer_def Let_def)
  from relay_invD(2) [OF inv r] g c i show ?thesis by (auto simp: inv_session_def session_ok_def)
qed

text \<open>
  The code that cleans up an empty session after a refused peer is dead: a handler
  gets there only when its session is full, so in every reachable state the clean-up
  leaves the table alone.
\<close>

lemma clean_never_deletes:
  assumes "reach relay_init (relay_step quote) s" and "at (handlers s c) = Cleaning"
  shows "PeerCount (heap s (session_ref (handlers s c))) = 2 \<and> handle_clean c s = goto c Finished s"
proof -
  have "relay_inv s" using assms(1) by (rule relay.reach_inv)
  from relay_invD(3) [OF this, of c] assms(2) show ?thesis
    by (simp add: inv_handler_def Let_def handle_clean_def PeerCount_def)
qed

section \<open>Two clients of one session\<close>

text \<open>
  \<open>handleConnection\<close> run without interruption on a client whose handshake is accepted and
  whose connection takes the acknowledgment.
\<close>

lemma handler_fields:
  "(h::handler)\<lparr>handshake_id := i, session_ref := r, at := p\<rparr> = \<lparr>at = p, handshake_id = i, session_ref = r\<rparr>"
  by (cases h) simp

lemma first_client_added:
  assumes rd: "ReadHandshake (conns s c) = Some (Inr m, k)"
    and new: "map_of (sessions s) (hs_SessionID m) = None" and room: "int (length (sessions s)) < MaxSessions (cfg s)"
  shows "(handler_segment quote now c ^^ 3) (accept c s) = t \<Longrightarrow>
    conns t = (conns s)(c := k) \<and> relayers t = relayers s \<and> cfg t = cfg s \<and> (serving s \<longrightarrow> serving t)
    \<and> sessions t = AList.update (hs_SessionID m) (next_ref s) (sessions s)
    \<and> GetPeers (heap t (next_ref s)) = [c] \<and> peerCount (heap t (next_ref s)) = 1
    \<and> session_ok (heap t (next_ref s))
    \<and> handlers t = (handlers s)(c := \<lparr>at = Acking, handshake_id = hs_SessionID m, session_ref = next_ref s\<rparr>)"
proof -
  assume t: "(handler_segment quote now c ^^ 3) (accept c s) = t"
  let ?i = "hs_SessionID m" and ?f = "handler_segment quote now c"
  let ?x = "new_session ?i now (cfg_QuotaBytes (cfg s)) (cfg_QuotaRate (cfg s))"
  define s0 where "s0 = accept c s"
  define s1 where "s1 = ?f s0"
  define s2 where "s2 = ?f s1"
  have 0: "handlers s0 = (handlers s)(c := (handlers s c)\<lparr>at := Reading\<rparr>)" "conns s0 = conns s"
    "sessions s0 = sessions s" "heap s0 = heap s" "next_ref s0 = next_ref s" "cfg s0 = cfg s" "relayers s0 = relayers s"
    "serving s \<Longrightarrow> serving s0"
    by (simp_all add: s0_def)
  have s1: "s1 = goto c Locking ((set_conn c k s0)
      \<lparr>handlers := (handlers s0)(c := (handlers s0 c)\<lparr>handshake_id := hs_SessionID m\<rparr>)\<rparr>)"
    using 0 rd by (simp add: s1_def handle_read_ok)
  have 1: "handlers s1 = (handlers s)(c := (handlers s c)\<lparr>handshake_id := ?i, at := Locking\<rparr>)"
    "conns s1 = (conns s)(c := k)" "sessions s1 = sessions s" "heap s1 = heap s" "next_ref s1 = next_ref s"
    "cfg s1 = cfg s" "relayers s1 = relayers s" "serving s \<Longrightarrow> serving s1"
    by (simp_all add: s1 0)
  have s2: "s2 = goto c Adding ((alloc ?i ?x s1)
       \<lparr>handlers := (handlers s1)(c := (handlers s1 c)\<lparr>session_ref := next_ref s\<rparr>)\<rparr>)"
    using 1 new room by (simp add: s2_def handle_lock_new)
  have 2: "handlers s2 = (handlers s)(c := \<lparr>at = Adding, handshake_id = ?i, session_ref = next_ref s\<rparr>)"
    "conns s2 = (conns s)(c := k)" "sessions s2 = AList.update ?i (next_ref s) (sessions s)"
    "heap s2 (next_ref s) = ?x" "cfg s2 = cfg s" "relayers s2 = relayers s" "serving s \<Longrightarrow> serving s2"
    by (simp_all add: s2 1 handler_fields)
  have x: "peerCount ?x = 0" by (simp add: new_session_def)
  have "t = goto c Acking (set_session (next_ref s) (snd (AddPeer (Some c) ?x)) s2)"
    using t 2 x by (simp add: eval_nat_numeral handle_add_ok flip: s0_def s1_def s2_def)
  moreover have "peerCount (snd (AddPeer (Some c) ?x)) = 1" by (simp add: AddPeer_def x)
  ultimately show ?thesis
    using 2 x by (simp add: GetPeers_AddPeer AddPeer_ok)
qed

lemma first_client_acked:
  assumes "ReadHandshake (conns s c) = Some (Inr m, k)" and "\<not> conn_closed k" and "tx_room k = None"
    and "map_of (sessions s) (hs_SessionID m) = None" and "int (length (sessions s)) < MaxSessions (cfg s)"
  shows "(handler_segment quote now c ^^ 4) (accept c s) = t \<Longrightarrow>
    conns t = (conns s)(c := k\<lparr>tx := tx k @ ack_bytes None\<rparr>)
    \<and> relayers t = relayers s \<and> cfg t = cfg s \<and> (serving s \<longrightarrow> serving t)
    \<and> sessions t = AList.update (hs_SessionID m) (next_ref s) (sessions s)
    \<and> GetPeers (heap t (next_ref s)) = [c] \<and> peerCount (heap t (next_ref s)) = 1
    \<and> session_ok (heap t (next_ref s))
    \<and> handlers t = (handlers s)(c := \<lparr>at = Counting, handshake_id = hs_SessionID m, session_ref = next_ref s\<rparr>)"
proof -
  let ?u = "(handler_segment quote now c ^^ 3) (accept c s)"
  note u = first_client_added [OF assms(1,4,5) refl, of quote now]
  assume "(handler_segment quote now c ^^ 4) (accept c s) = t"
  then have "handler_segment quote now c ?u = t" by (simp add: eval_nat_numeral)
  with u assms(2,3) have "t = goto c Counting (set_conn c (k\<lparr>tx := tx k @ ack_bytes None\<rparr>) ?u)"
    by (simp add: handle_ack_ok)
  with u show ?thesis by simp
qed

lemma handleConnection_first:
  assumes "ReadHandshake (conns s c) = Some (Inr m, k)" and "\<not> conn_closed k" and "tx_room k = None"
    and "map_of (sessions s) (hs_SessionID m) = None" and "int (length (sessions s)) < MaxSessions (cfg s)"
  shows "handleConnection quote now c s = t \<Longrightarrow>
    conns t = (conns s)(c := k\<lparr>tx := tx k @ ack_bytes None\<rparr>)
    \<and> relayers t = relayers s \<and> cfg t = cfg s \<and> (serving s \<longrightarrow> serving t)
    \<and> sessions t = AList.update (hs_SessionID m) (next_ref s) (sessions s)
    \<and> GetPeers (heap t (next_ref s)) = [c] \<and> peerCount (heap t (next_ref s)) = 1
    \<and> session_ok (heap t (next_ref s))
    \<and> handlers t = (handlers s)(c := \<lparr>at = Finished, handshake_id = hs_SessionID m, session_ref = next_ref s\<rparr>)"
proof -
  let ?u = "(handler_segment quote now c ^^ 4) (accept c s)"
  note u = first_client_acked [OF assms refl, of quote now]
  assume "handleConnection quote now c s = t"
  then have "handler_segment quote now c ?u = t" by (simp add: handleConnection_def eval_nat_numeral)
  with u have "t = goto c Finished ?u" by (simp add: handle_count_def PeerCount_def)
  with u show ?thesis by simp
qed

lemma handleConnection_second:
  assumes "ReadHandshake (conns s c) = Some (Inr m, k)" and "\<not> conn_closed k" and "tx_room k = None"
    and "map_of (sessions s) (hs_SessionID m) = Some r"
    and "session_ok (heap s r)" and "GetPeers (heap s r) = [d]" and "c \<noteq> d"
  shows "handleConnection quote now c s = t \<Longrightarrow>
    conns t = (conns s)(c := k\<lparr>tx := tx k @ ack_bytes None\<rparr>)
    \<and> relayers t = (relayers s)(c := Starting) \<and> (serving s \<longrightarrow> serving t) \<and> sessions t = sessions s
    \<and> peerCount (heap t r) = 2 \<and> GetPeers (heap t r) = [d, c]
    \<and> handlers t = (handlers s)(c := \<lparr>at = Finished, handshake_id = hs_SessionID m, session_ref = r\<rparr>)"
proof -
  assume t: "handleConnection quote now c s = t"
  let ?i = "hs_SessionID m" and ?f = "handler_segment quote now c" and ?y = "snd (AddPeer (Some c) (heap s r))"
  define s0 where "s0 = accept c s"
  define s1 where "s1 = ?f s0"
  define s2 where "s2 = ?f s1"
  define s3 where "s3 = ?f s2"
  define s4 where "s4 = ?f s3"
  have n: "peerCount (heap s r) = 1" using length_GetPeers [OF assms(5)] assms(6) by simp
  have y: "GetPeers ?y = [d, c]" "peerCount ?y = 2"
    using GetPeers_AddPeer [OF assms(5), of c] n assms(6) by (simp_all add: AddPeer_def)
  have 0: "handlers s0 = (handlers s)(c := (handlers s c)\<lparr>at := Reading\<rparr>)" "conns s0 = conns s"
    "sessions s0 = sessions s" "heap s0 = heap s" "relayers s0 = relayers s" "serving s \<Longrightarrow> serving s0"
    by (simp_all add: s0_def)
  have s1: "s1 = goto c Locking ((set_conn c k s0)
      \<lparr>handlers := (handlers s0)(c := (handlers s0 c)\<lparr>handshake_id := hs_SessionID m\<rparr>)\<rparr>)"
    using 0 assms(1) by (simp add: s1_def handle_read_ok)
  have 1: "handlers s1 = (handlers s)(c := (handlers s c)\<lparr>handshake_id := ?i, at := Locking\<rparr>)"
    "conns s1 = (conns s)(c := k)" "sessions s1 = sessions s" "heap s1 = heap s" "relayers s1 = relayers s" "serving s \<Longrightarrow> serving s1"
    by (simp_all add: s1 0)
  have s2: "s2 = goto c Adding (s1\<lparr>handlers := (handlers s1)(c := (handlers s1 c)\<lparr>session_ref := r\<rparr>)\<rparr>)"
    using 1 assms(4) by (simp add: s2_def handle_lock_found)
  have 2: "handlers s2 = (handlers s)(c := \<lparr>at = Adding, handshake_id = ?i, session_ref = r\<rparr>)"
    "conns s2 = (conns s)(c := k)" "sessions s2 = sessions s" "heap s2 = heap s" "relayers s2 = relayers s" "serving s \<Longrightarrow> serving s2"
    by (simp_all add: s2 1 handler_fields)
  have s3: "s3 = goto c Acking (set_session r ?y s2)"
    using 2 n by (simp add: s3_def handle_add_ok)
  have 3: "handlers s3 = (handlers s)(c := \<lparr>at = Acking, handshake_id = ?i, session_ref = r\<rparr>)"
    "conns s3 = (conns s)(c := k)" "sessions s3 = sessions s" "heap s3 r = ?y" "relayers s3 = relayers s" "serving s \<Longrightarrow> serving s3"
    by (simp_all add: s3 2)
  have s4: "s4 = goto c Counting (set_conn c (k\<lparr>tx := tx k @ ack_bytes None\<rparr>) s3)"
    using assms(2,3) by (simp add: s4_def 3 handle_ack_ok)
  have "t = goto c Finished (set_relayer c Starting s4)"
    using t 3 y by (simp add: handleConnection_def eval_nat_numeral handle_count_def PeerCount_def s4 set_relayer_def
      flip: s0_def s1_def s2_def s3_def s4_def)
  then show ?thesis using y by (simp add: s4 3)
qed

text \<open>
  C18: two clients that come one after the other with the same new session id are paired:
  the first one's handler finishes without relaying and leaves the session in the table,
  the second one's starts exactly one relaying goroutine, which copies between the two, in
  the order they came; both connections have been sent the positive acknowledgment and
  nothing else, and what else they sent is still to be read.
\<close>

theorem two_clients_paired:
  assumes "ReadHandshake (conns s c) = Some (Inr m, k)" and "\<not> conn_closed k" and "tx_room k = None"
    and "ReadHandshake (conns s d) = Some (Inr n, l)" and "\<not> conn_closed l" and "tx_room l = None"
    and "c \<noteq> d" and "hs_SessionID n = hs_SessionID m"
    and "map_of (sessions s) (hs_SessionID m) = None" and "int (SessionCount s) < MaxSessions (cfg s)"
    and "relayers s c = NoRelay"
    and "t = handleConnection quote now' d (handleConnection quote now c s)"
  shows "conns t c = k\<lparr>tx := tx k @ ack_bytes None\<rparr> \<and> conns t d = l\<lparr>tx := tx l @ ack_bytes None\<rparr>
    \<and> relayers t c = NoRelay \<and> relayers t d = Starting
    \<and> relay_start d t = set_relayer d (Copying c d (CopyRead 0) (CopyRead 0)) t
    \<and> map_of (sessions t) (hs_SessionID m) = Some (session_ref (handlers t d))
    \<and> SessionCount t = Suc (SessionCount s)"
proof -
  define u where "u = handleConnection quote now c s"
  note first = handleConnection_first [OF assms(1-3,9) assms(10) [unfolded SessionCount_def] u_def [symmetric]]
  have rd: "ReadHandshake (conns u d) = Some (Inr n, l)" using assms(4,7) first by simp
  have in_u: "map_of (sessions u) (hs_SessionID n) = Some (next_ref s)" using first assms(8) by simp
  have t: "handleConnection quote now' d u = t" using assms(12) by (simp add: u_def)
  note second = handleConnection_second [OF rd assms(5,6) in_u _ _ _ t, of c]
  from first second assms(7-11) show ?thesis
    by (simp add: relay_start_def SessionCount_def length_AList_update)
qed

section \<open>Every handler returns\<close>

text \<open>
  The number of segments a handler still has to go, and what its connection has been sent
  when it stands at each of them.
\<close>

fun to_go :: "pc \<Rightarrow> nat" where
  "to_go Absent = 0" | "to_go Reading = 5" | "to_go Locking = 4" | "to_go Adding = 3"
| "to_go Acking = 2" | "to_go Counting = 1" | "to_go Cleaning = 1" | "to_go Finished = 0"

definition stage :: "byte list \<Rightarrow> conn_id \<Rightarrow> server \<Rightarrow> bool" where
  "stage sent c s \<longleftrightarrow>
     (case at (handlers s c) of
        Absent \<Rightarrow> False
      | Cleaning \<Rightarrow> conn_closed (conns s c)
      | Counting \<Rightarrow> tx (conns s c) = sent @ ack_bytes None
      | Finished \<Rightarrow> conn_closed (conns s c) \<or> tx (conns s c) = sent @ ack_bytes None
          \<and> c \<in> set (GetPeers (heap s (session_ref (handlers s c))))
      | _ \<Rightarrow> tx (conns s c) = sent)"

lemma refuse_closed [simp]: "conn_closed (conns (refuse c m s) c)"
  by (simp add: refuse_def conn_simps)

lemma handle_read_returns:
  obtains (Accepted) m :: HandshakeMessage and k where "tx k = tx (conns s c)" and "handle_read quote c s = goto c Locking ((set_conn c k s)
      \<lparr>handlers := (handlers s)(c := (handlers s c)\<lparr>handshake_id := hs_SessionID m\<rparr>)\<rparr>)"
  | (Refused) m u where "handle_read quote c s = goto c Finished (refuse c m u)"
proof -
  obtain k x where rd: "ReadHandshake (conns s c) = Some (x, k)" and "outgoing k = outgoing (conns s c)"
    by (rule ReadHandshake_stream)
  then have "tx k = tx (conns s c)" by (simp add: outgoing_eq_iff)
  show thesis
  proof (cases x)
    case (Inl e)
    then show thesis using rd by (intro that(2)) (simp add: handle_read_def)
  next
    case (Inr m)
    then show thesis using rd \<open>tx k = tx (conns s c)\<close> by (intro that(1)) (simp_all add: handle_read_def)
  qed
qed

lemma segment_progress:
  assumes inv: "relay_inv s" and st: "stage sent c s"
  shows "stage sent c (handler_segment quote now c s)
    \<and> to_go (at (handlers (handler_segment quote now c s) c)) \<le> to_go (at (handlers s c)) - 1"
proof (cases "at (handlers s c)")
  case Reading
  then have sent: "tx (conns s c) = sent" using st by (simp add: stage_def)
  show ?thesis
  proof (rule handle_read_returns [of s c quote])
    fix m :: HandshakeMessage and k assume k: "tx k = tx (conns s c)" and eq: "handle_read quote c s = goto c Locking ((set_conn c k s)
      \<lparr>handlers := (handlers s)(c := (handlers s c)\<lparr>handshake_id := hs_SessionID m\<rparr>)\<rparr>)"
    show ?thesis unfolding handler_segment_simps(1) [OF Reading] eq by (simp add: stage_def k sent Reading)
  next
    fix m u assume eq: "handle_read quote c s = goto c Finished (refuse c m u)"
    show ?thesis unfolding handler_segment_simps(1) [OF Reading] eq by (simp add: stage_def Reading)
  qed
next
  case Locking
  with st show ?thesis
    by (auto simp: stage_def handle_lock_def Let_def split: option.split)
next
  case Adding
  with st show ?thesis
    by (auto simp: stage_def handle_add_def Let_def split: option.split prod.split)
next
  case Acking
  with st show ?thesis
    using conn_write_None [of "ack_bytes None" "conns s c"]
    by (auto simp: stage_def handle_ack_def WriteHandshakeAck_bytes conn_simps split: option.split prod.split)
next
  case Counting
  with st relay_invD(3) [OF inv, of c] show ?thesis
    by (auto simp: stage_def handle_count_def inv_handler_def Let_def)
next
  case Cleaning
  with st show ?thesis by (auto simp: stage_def handle_clean_def)
qed (use st in \<open>auto simp: stage_def\<close>)

lemma segments_progress:
  assumes "reach relay_init (relay_step quote) s" and "stage sent c s"
  shows "stage sent c ((handler_segment quote now c ^^ n) s)
    \<and> to_go (at (handlers ((handler_segment quote now c ^^ n) s) c)) \<le> to_go (at (handlers s c)) - n"
proof (induction n)
  case (Suc n)
  let ?u = "(handler_segment quote now c ^^ n) s"
  have "relay_inv ?u" by (rule relay.run_inv [OF assms(1) handler_segments_run])
  from segment_progress [OF this conjunct1 [OF Suc], of quote now] conjunct2 [OF Suc]
  have "stage sent c (handler_segment quote now c ?u)"
    "to_go (at (handlers (handler_segment quote now c ?u) c)) \<le> to_go (at (handlers s c)) - Suc n"
    by linarith+
  then show ?case by simp
qed (use assms(2) in simp)

text \<open>Closing is all the server's \<open>Close\<close> does to a connection.\<close>

definition only_closed :: "conn \<Rightarrow> conn \<Rightarrow> bool" where
  "only_closed k l \<longleftrightarrow> l = k \<or> l = conn_close k"

lemma only_closed_refl [simp]: "only_closed k k"
  by (simp add: only_closed_def)

lemma only_closed_close [simp]: "only_closed k (conn_close k)"
  by (simp add: only_closed_def)

lemma only_closed_trans: "only_closed k l \<Longrightarrow> only_closed l m \<Longrightarrow> only_closed k m"
  by (auto simp: only_closed_def conn_simps)

lemma only_closedD:
  "only_closed k l \<Longrightarrow> tx l = tx k \<and> rx l = rx k \<and> tx_room l = tx_room k \<and> (conn_closed k \<longrightarrow> conn_closed l)"
  by (auto simp: only_closed_def conn_close_def)

lemma close_conns_only [simp]: "only_closed (conns s e) (conns (close_conns cs s) e)"
  by (simp add: close_conns_def)

lemma close_sessions_frame:
  "relayers (close_sessions es s) = relayers s \<and> handlers (close_sessions es s) = handlers s
   \<and> only_closed (conns s e) (conns (close_sessions es s) e)"
proof (induction es s rule: close_sessions.induct)
  case (2 i r es s)
  obtain cs x where x: "Close (heap s r) = (cs, x)" by fastforce
  from 2 [OF x [symmetric]] x show ?case
    by (auto simp: close_conns_def only_closed_def conn_simps)
qed simp

text \<open>Whatever step the server takes, the handler of \<open>c\<close> stays where it is or gets closer to its end.\<close>

lemma handler_approaches:
  assumes "relay_step quote s t"
  shows "at (handlers t c) = at (handlers s c) \<or> at (handlers s c) = Absent \<and> at (handlers t c) = Reading
    \<or> to_go (at (handlers t c)) < to_go (at (handlers s c))"
  using assms
proof cases
  case (Read d)
  then show ?thesis by (cases "d = c") (auto simp: handle_read_def split: option.split sum.split prod.split)
next
  case (Lock d now)
  then show ?thesis by (cases "d = c") (auto simp: handle_lock_def Let_def split: option.split)
next
  case (Add d)
  then show ?thesis by (cases "d = c") (auto simp: handle_add_def Let_def split: option.split prod.split)
next
  case (Ack d)
  then show ?thesis by (cases "d = c") (auto simp: handle_ack_def split: option.split prod.split)
next
  case (Forward d)
  then show ?thesis by (auto simp: copy_forward_def dest: copy_step_frame split: prod.split)
next
  case (Back d)
  then show ?thesis by (auto simp: copy_back_def dest: copy_step_frame split: prod.split)
next
  case CloseClear
  then show ?thesis using close_sessions_frame [of "sessions s" s] by (simp add: close_clear_def)
qed (auto simp: accept_def accept_error_def handle_count_def handle_clean_def relay_start_def relay_finish_def relay_cleanup_def
    close_mark_def close_listener_def Let_def split: list.split prod.split copier.split)

lemma handler_proceeds:
  assumes "at (handlers s c) \<notin> {Absent, Finished}"
  shows "\<exists>t. relay_step quote s t \<and> to_go (at (handlers t c)) < to_go (at (handlers s c))"
proof (intro exI conjI)
  show "relay_step quote s (handler_segment quote now c s)" for now
    using assms by (intro handler_segment_step) (cases "at (handlers s c)"; simp)
  show "to_go (at (handlers (handler_segment quote now c s) c)) < to_go (at (handlers s c))" for now
  proof (cases "at (handlers s c)")
    case Reading
    show ?thesis
      by (rule handle_read_returns [of s c quote]) (use Reading in simp_all)
  qed (use assms in \<open>auto simp: handle_lock_def handle_add_def handle_ack_def handle_count_def handle_clean_def Let_def
      split: option.split prod.split\<close>)
qed

text \<open>
  C19: every handler returns, whatever the client sends and whatever the other goroutines do. Every
  step of the server leaves a handler where it is, starts it, or brings it nearer to its end, of which
  there are at most five; and a handler that has not returned always has a next step.
  If no other goroutine runs in between, then at the end the connection is closed, or it has been
  sent exactly the positive acknowledgment and is a peer of the session it asked for.
\<close>

theorem handleConnection_returns:
  assumes "reach relay_init (relay_step quote) s"
  shows "(\<forall>t. relay_step quote s t \<longrightarrow> at (handlers t c) = at (handlers s c)
        \<or> at (handlers s c) = Absent \<and> at (handlers t c) = Reading
        \<or> to_go (at (handlers t c)) < to_go (at (handlers s c)))
    \<and> to_go (at (handlers s c)) \<le> 5
    \<and> (at (handlers s c) \<notin> {Absent, Finished} \<longrightarrow>
        (\<exists>t. relay_step quote s t \<and> to_go (at (handlers t c)) < to_go (at (handlers s c))))
    \<and> (serving s \<and> at (handlers s c) = Absent \<and> t = handleConnection quote now c s \<longrightarrow>
        at (handlers t c) = Finished \<and>
        (conn_closed (conns t c) \<or> tx (conns t c) = tx (conns s c) @ ack_bytes None
           \<and> c \<in> set (GetPeers (heap t (session_ref (handlers t c))))))"
proof -
  have alone: "at (handlers t c) = Finished \<and> (conn_closed (conns t c) \<or> tx (conns t c) = tx (conns s c) @ ack_bytes None
      \<and> c \<in> set (GetPeers (heap t (session_ref (handlers t c)))))"
    if h: "serving s" "at (handlers s c) = Absent" "t = handleConnection quote now c s"
  proof -
    have r: "reach relay_init (relay_step quote) (accept c s)"
      using assms relay_step.Accept [of s c quote] h(1,2) by (auto simp: serving_def intro: reach_step)
    have "stage (tx (conns s c)) c (accept c s)" by (simp add: stage_def accept_def)
    from segments_progress [OF r this, of 5 now] h(3)
    have p: "stage (tx (conns s c)) c t" "to_go (at (handlers t c)) = 0"
      by (simp_all add: handleConnection_def accept_def)
    then have "at (handlers t c) = Finished" by (cases "at (handlers t c)") (auto simp: stage_def)
    with p(1) show ?thesis by (simp add: stage_def)
  qed
  have "to_go (at (handlers s c)) \<le> 5" by (cases "at (handlers s c)") simp_all
  then show ?thesis using handler_approaches [of quote s] handler_proceeds [of s c quote] alone by blast
qed

section \<open>What the relaying goroutine delivers\<close>

text \<open>
  The goroutine started by \<open>c\<close> is the only one of its session, and both handlers are done.
\<close>

definition sole :: "conn_id \<Rightarrow> conn_id \<Rightarrow> conn_id \<Rightarrow> server \<Rightarrow> bool" where
  "sole c p q s \<longleftrightarrow> at (handlers s p) = Finished \<and> at (handlers s q) = Finished
     \<and> (\<forall>d \<in> {p, q} - {c}. relayers s d = NoRelay)"

text \<open>The handler of another connection touches its own connection and relayer only.\<close>

lemma handler_frame:
  assumes "e \<noteq> d" and "t \<in> {accept d s, handle_read quote d s, handle_lock now d s, handle_add d s,
    handle_ack d s, handle_count d s, handle_clean d s}"
  shows "conns t e = conns s e \<and> handlers t e = handlers s e \<and> relayers t e = relayers s e"
  using assms
  by (auto simp: accept_def handle_read_def handle_lock_def handle_add_def handle_ack_def handle_count_def
      handle_clean_def Let_def refuse_def split: option.split sum.split prod.split)

lemma relay_step_groups [consumes 1, case_names Handler Start Forward Back Finish Cleanup Closing]:
  assumes "relay_step quote s t"
  obtains d now where "at (handlers s d) \<noteq> Finished"
      "t \<in> {accept d s, handle_read quote d s, handle_lock now d s, handle_add d s,
        handle_ack d s, handle_count d s, handle_clean d s}"
    | d where "relayers s d = Starting" "t = relay_start d s"
    | d p q x y where "relayers s d = Copying p q x y" "t = copy_forward d s"
    | d p q x y where "relayers s d = Copying p q x y" "t = copy_back d s"
    | d p q where "relayers s d = Copying p q CopyDone CopyDone" "t = relay_finish d s"
    | d where "relayers s d = Ended" "t = relay_cleanup d s"
    | "t \<in> {close_mark s, close_clear s, close_listener s, accept_error s}"
  using assms
proof cases
  case (Accept d)
  then show thesis by (intro that(1) [of d]) auto
next
  case (Read d)
  then show thesis by (intro that(1) [of d]) auto
next
  case (Add d)
  then show thesis by (intro that(1) [of d]) auto
next
  case (Ack d)
  then show thesis by (intro that(1) [of d]) auto
next
  case (Count d)
  then show thesis by (intro that(1) [of d]) auto
next
  case (Clean d)
  then show thesis by (intro that(1) [of d]) auto
next
  case (Lock d now)
  then show thesis by (intro that(1) [of d now]) auto
qed (use that in auto)

lemma copy_step_conns:
  assumes "copy_step r src dst x s = (x', t)"
  shows "e \<notin> {src, dst} \<Longrightarrow> conns t e = conns s e"
  using assms by (auto simp: copy_step_def split: copier.splits prod.splits sum.splits option.splits)

text \<open>Another relaying goroutine has other peers.\<close>

lemma other_relayer:
  assumes inv: "relay_inv s" and c: "relayers s c = Copying p q x y" and sole: "sole c p q s"
    and d: "d \<noteq> c" "relayers s d = Copying p' q' x' y'"
  shows "d \<notin> {p, q} \<and> {p', q'} \<inter> {p, q} = {}"
proof -
  let ?r = "session_ref (handlers s c)" and ?r' = "session_ref (handlers s d)"
  have C: "?r < next_ref s" "GetPeers (heap s ?r) = [p, q]"
    using relay_invD(4) [OF inv, of c] c by (auto simp: inv_relayer_def Let_def)
  have D: "?r' < next_ref s" "GetPeers (heap s ?r') = [p', q']" "d \<in> {p', q'}"
    using relay_invD(4) [OF inv, of d] d by (auto simp: inv_relayer_def Let_def)
  have "d \<notin> {p, q}" using sole d by (auto simp: sole_def)
  moreover have "?r' \<noteq> ?r" using C D \<open>d \<notin> {p, q}\<close> by auto
  moreover have "session_ref (handlers s e) = ?r" if "e \<in> {p, q}" for e
    using relay_invD(2) [OF inv C(1)] C(2) that by (auto simp: inv_session_def)
  moreover have "session_ref (handlers s e) = ?r'" if "e \<in> {p', q'}" for e
    using relay_invD(2) [OF inv D(1)] D(2) that by (auto simp: inv_session_def)
  ultimately show ?thesis by (metis disjoint_iff)
qed

lemma step_of_others:
  assumes inv: "relay_inv s" and c: "relayers s c = Copying p q x y" and sole: "sole c p q s"
    and st: "relay_step quote s t"
  shows "t \<in> {copy_forward c s, copy_back c s, relay_finish c s}
    \<or> (\<forall>e \<in> {c, p, q}. relayers t e = relayers s e \<and> handlers t e = handlers s e \<and> only_closed (conns s e) (conns t e)
          \<and> (closing t \<noteq> CloseCleared \<longrightarrow> conns t e = conns s e))"
proof -
  have cpq: "c \<in> {p, q}" using relay_invD(4) [OF inv, of c] c by (auto simp: inv_relayer_def Let_def)
  have fin: "at (handlers s e) = Finished" if "e \<in> {p, q}" for e using sole that by (auto simp: sole_def)
  have no: "relayers s e = NoRelay" if "e \<in> {p, q}" "e \<noteq> c" for e using sole that by (auto simp: sole_def)
  show ?thesis
    using st
  proof (cases rule: relay_step_groups)
    case (Handler d now)
    with fin cpq have "c \<noteq> d" "p \<noteq> d" "q \<noteq> d" by auto
    with handler_frame [OF _ Handler(2)] show ?thesis by simp
  next
    case (Start d)
    then have "d \<noteq> c" using c by auto
    with Start no [of d] have "d \<notin> {c, p, q}" by auto
    with Start show ?thesis by (auto simp: relay_start_def split: list.split)
  next
    case (Forward d p' q' x' y')
    show ?thesis
    proof (cases "d = c")
      case False
      obtain z u where u: "copy_step (session_ref (handlers s d)) p' q' x' s = (z, u)" by fastforce
      note o = other_relayer [OF inv c sole False Forward(1)]
      have "conns t e = conns s e" if "e \<in> {p, q}" for e
        using Forward u o that copy_step_conns [OF u, of e] by (auto simp: copy_forward_def)
      with o Forward u copy_step_frame [OF u] cpq False show ?thesis
        by (auto simp: copy_forward_def)
    qed (use Forward in simp)
  next
    case (Back d p' q' x' y')
    show ?thesis
    proof (cases "d = c")
      case False
      obtain z u where u: "copy_step (session_ref (handlers s d)) q' p' y' s = (z, u)" by fastforce
      note o = other_relayer [OF inv c sole False Back(1)]
      have "conns t e = conns s e" if "e \<in> {p, q}" for e
        using Back u o that copy_step_conns [OF u, of e] by (auto simp: copy_back_def)
      with o Back u copy_step_frame [OF u] cpq False show ?thesis
        by (auto simp: copy_back_def)
    qed (use Back in simp)
  next
    case (Finish d p' q')
    show ?thesis
    proof (cases "d = c")
      case False
      have "GetPeers (heap s (session_ref (handlers s d))) = [p', q']"
        using relay_invD(4) [OF inv, of d] Finish(1) by (auto simp: inv_relayer_def Let_def)
      then have "set (fst (Close (heap s (session_ref (handlers s d))))) \<subseteq> {p', q'}"
        by (auto simp: Close_def GetPeers_def)
      with other_relayer [OF inv c sole False Finish(1)] Finish cpq show ?thesis
        by (auto simp: relay_finish_def Let_def close_conns_def split: prod.split)
    qed (use Finish in simp)
  next
    case (Cleanup d)
    then have "d \<noteq> c" using c by auto
    with Cleanup no [of d] have "d \<notin> {c, p, q}" by auto
    with Cleanup show ?thesis by (auto simp: relay_cleanup_def)
  next
    case Closing
    then show ?thesis using close_sessions_frame [of "sessions s" s]
      by (auto simp: close_mark_def close_clear_def close_listener_def)
  qed
qed

text \<open>
  One direction of the copying, seen from the whole byte sequence it is to carry: it starts
  with what the destination has been sent; and as long as the destination is open and no
  write to it has failed, it continues with what the copier holds and, if the source is
  open too, with exactly what the source still delivers.
\<close>

fun pending :: "copier \<Rightarrow> byte list" where
  "pending (CopyWrite bs _) = bs"
| "pending _ = []"

fun active :: "copier \<Rightarrow> bool" where
  "active (CopyRead _) = True"
| "active (CopyWrite _ _) = True"
| "active _ = False"

definition carried :: "byte list \<Rightarrow> conn \<Rightarrow> conn \<Rightarrow> copier \<Rightarrow> bool" where
  "carried whole src dst z \<longleftrightarrow> (\<exists>rest. whole = tx dst @ rest)
     \<and> (\<not> conn_closed dst \<longrightarrow> active z \<or> tx_room dst = None \<longrightarrow>
          (\<exists>rest. whole = tx dst @ pending z @ rest \<and> (\<not> conn_closed src \<longrightarrow> rest = concat (rx src))))"

lemma carried_frame:
  assumes "carried whole src dst z" and "rx src' = rx src" and "conn_closed src \<Longrightarrow> conn_closed src'"
    and "tx dst' = tx dst" and "tx_room dst' = tx_room dst" and "conn_closed dst \<Longrightarrow> conn_closed dst'"
  shows "carried whole src' dst' z"
  using assms unfolding carried_def by metis

lemma carried_only_closed:
  "carried whole src dst z \<Longrightarrow> only_closed src src' \<Longrightarrow> only_closed dst dst' \<Longrightarrow> carried whole src' dst' z"
  using only_closedD [of src src'] only_closedD [of dst dst'] by (auto elim: carried_frame)

lemma conn_read_frame:
  assumes "conn_read k c = (x, d)"
  shows "tx d = tx c" "tx_room d = tx_room c" "conn_closed d = conn_closed c"
    "x = Inr bs \<Longrightarrow> concat (rx c) = bs @ concat (rx d)"
    "x = Inl e \<Longrightarrow> \<not> conn_closed c \<Longrightarrow> concat (rx c) = [] \<and> rx d = []"
proof -
  have n: "next_piece (rx c) = q # qs \<Longrightarrow> concat (rx c) = q @ concat qs" for q qs
    using concat_next_piece [of "rx c"] by simp
  show "tx d = tx c" "tx_room d = tx_room c" "conn_closed d = conn_closed c"
    using assms by (auto simp: conn_read_def split: if_splits list.splits)
  show "x = Inr bs \<Longrightarrow> concat (rx c) = bs @ concat (rx d)"
    using assms n by (auto simp: conn_read_def split: if_splits list.splits)
  show "x = Inl e \<Longrightarrow> \<not> conn_closed c \<Longrightarrow> concat (rx c) = [] \<and> rx d = []"
    using assms by (auto simp: conn_read_def next_piece_Nil_iff split: if_splits list.splits)
qed

lemma conn_write_frame:
  assumes "conn_write bs c = (x, d)"
  shows "rx d = rx c" "conn_closed d = conn_closed c" "tx_room d = None \<longleftrightarrow> tx_room c = None"
    "x = None \<Longrightarrow> tx d = tx c @ bs"
    "x = Some e \<Longrightarrow> (conn_closed d \<or> tx_room d \<noteq> None) \<and> (\<exists>ws vs. bs = ws @ vs \<and> tx d = tx c @ ws)"
proof -
  show "rx d = rx c" "conn_closed d = conn_closed c" "tx_room d = None \<longleftrightarrow> tx_room c = None"
    "x = None \<Longrightarrow> tx d = tx c @ bs"
    using assms by (auto simp: conn_write_def split: if_splits option.splits)
  have "\<exists>ws vs. bs = ws @ vs \<and> tx d = tx c @ ws"
    using conn_write_prefix [of bs c] assms by (metis append_take_drop_id snd_conv)
  moreover have "conn_closed d \<or> tx_room d \<noteq> None" if "x = Some e"
    using assms that by (auto simp: conn_write_def simp del: not_None_eq split: if_splits option.splits)
  ultimately show "x = Some e \<Longrightarrow> (conn_closed d \<or> tx_room d \<noteq> None) \<and> (\<exists>ws vs. bs = ws @ vs \<and> tx d = tx c @ ws)"
    by blast
qed

lemma carried_own:
  assumes st: "copy_step r src dst z s = (z', t)" and ne: "src \<noteq> dst"
    and c: "carried whole (conns s src) (conns s dst) z"
  shows "carried whole (conns t src) (conns t dst) z'"
proof (cases z)
  case (CopyRead n)
  obtain x k where rd: "conn_read io_copy_buffer (conns s src) = (x, k)" by fastforce
  note f = conn_read_frame [OF rd]
  show ?thesis
  proof (cases x)
    case (Inl e)
    with st CopyRead rd have "z' = CopyEnd n" "t = set_conn src k s" by (auto simp: copy_step_def)
    with c CopyRead ne f(1-3) f(5) [OF Inl] show ?thesis by (auto simp: carried_def)
  next
    case (Inr bs)
    then have "\<not> conn_closed (conns s src)" using rd by (auto simp: conn_read_def split: if_splits)
    moreover have "z' = CopyWrite bs n" "t = set_conn src k s"
      using st CopyRead rd Inr by (auto simp: copy_step_def)
    ultimately show ?thesis
      using c CopyRead ne f(1-3) f(4) [OF Inr] by (auto simp: carried_def)
  qed
next
  case (CopyWrite bs n)
  obtain x k where wr: "conn_write bs (conns s dst) = (x, k)" by fastforce
  note f = conn_write_frame [OF wr]
  show ?thesis
  proof (cases x)
    case None
    then have "\<not> conn_closed (conns s dst)" using wr by (auto simp: conn_write_def split: if_splits)
    moreover have "z' = CopyRead (n + length bs)" "t = set_conn dst k s"
      using st CopyWrite wr None by (auto simp: copy_step_def)
    ultimately show ?thesis using c CopyWrite ne f(1-3) f(4) [OF None] by (auto simp: carried_def)
  next
    case (Some e)
    with st CopyWrite wr have eq: "pending z' = []" "\<not> active z'" "t = set_conn dst k s"
      by (auto simp: copy_step_def)
    from f(5) [OF Some] obtain ws vs where w: "bs = ws @ vs" "tx k = tx (conns s dst) @ ws"
      "conn_closed k \<or> tx_room k \<noteq> None" by blast
    have "\<exists>rest. whole = tx k @ rest"
    proof (cases "conn_closed (conns s dst)")
      case True
      with wr have "k = conns s dst" by (simp add: conn_write_def)
      with c show ?thesis by (auto simp: carried_def)
    next
      case False
      with c CopyWrite w show ?thesis by (auto simp: carried_def)
    qed
    with eq ne w(3) show ?thesis by (auto simp: carried_def)
  qed
next
  case (CopyEnd n)
  with st ne c show ?thesis by (auto simp: copy_step_def carried_def conn_simps)
next
  case CopyDone
  with st c show ?thesis by (simp add: copy_step_def)
qed

lemma carried_other:
  assumes st: "copy_step r dst src w s = (w', t)" and ne: "src \<noteq> dst"
    and c: "carried whole (conns s src) (conns s dst) z"
  shows "carried whole (conns t src) (conns t dst) z"
proof (rule carried_frame [OF c])
  show "rx (conns t src) = rx (conns s src)" "conn_closed (conns s src) \<Longrightarrow> conn_closed (conns t src)"
    using st ne by (auto simp: copy_step_def conn_close_def split: copier.splits prod.splits sum.splits option.splits
        dest: conn_read_frame conn_write_frame)
  show "tx (conns t dst) = tx (conns s dst)" "tx_room (conns t dst) = tx_room (conns s dst)"
    "conn_closed (conns s dst) \<Longrightarrow> conn_closed (conns t dst)"
    using st ne by (auto simp: copy_step_def conn_close_def split: copier.splits prod.splits sum.splits option.splits
        dest: conn_read_frame conn_write_frame)
qed

text \<open>Both directions of one session, under every step of the server.\<close>

definition forwards :: "byte list \<Rightarrow> byte list \<Rightarrow> conn_id \<Rightarrow> conn_id \<Rightarrow> conn_id \<Rightarrow> server \<Rightarrow> bool" where
  "forwards there fro c p q s \<longleftrightarrow> sole c p q s \<and>
     (\<exists>x y. relayers s c = Copying p q x y \<and> carried there (conns s p) (conns s q) x
        \<and> carried fro (conns s q) (conns s p) y)"

lemma forwards_step:
  assumes inv: "relay_inv s" and fw: "forwards there fro c p q s" and st: "relay_step quote s t"
  shows "forwards there fro c p q t \<or> relayers t c = Ended"
proof -
  from fw obtain x y where sole: "sole c p q s" and c: "relayers s c = Copying p q x y"
    and xy: "carried there (conns s p) (conns s q) x" "carried fro (conns s q) (conns s p) y"
    by (auto simp: forwards_def)
  have ne: "p \<noteq> q"
    using relay_invD(4) [OF inv, of c] relay_invD(2) [OF inv, of "session_ref (handlers s c)"] c
    by (auto simp: inv_relayer_def inv_session_def session_ok_def Let_def)
  consider "t = copy_forward c s" | "t = copy_back c s" | "t = relay_finish c s"
    | "\<forall>e \<in> {c, p, q}. relayers t e = relayers s e \<and> handlers t e = handlers s e \<and> only_closed (conns s e) (conns t e)
          \<and> (closing t \<noteq> CloseCleared \<longrightarrow> conns t e = conns s e)"
    using step_of_others [OF inv c sole st] by blast
  then show ?thesis
  proof cases
    case 1
    obtain x' u where u: "copy_step (session_ref (handlers s c)) p q x s = (x', u)" by fastforce
    with 1 c have t: "t = set_relayer c (Copying p q x' y) u" by (simp add: copy_forward_def)
    with sole copy_step_frame [OF u] carried_own [OF u ne xy(1)] carried_other [OF u _ xy(2)] ne show ?thesis
      by (auto simp: forwards_def sole_def)
  next
    case 2
    obtain y' u where u: "copy_step (session_ref (handlers s c)) q p y s = (y', u)" by fastforce
    with 2 c have t: "t = set_relayer c (Copying p q x y') u" by (simp add: copy_back_def)
    with sole copy_step_frame [OF u] carried_own [OF u _ xy(2)] carried_other [OF u ne xy(1)] ne show ?thesis
      by (auto simp: forwards_def sole_def)
  next
    case 3
    then show ?thesis
      using c fw by (auto simp: relay_finish_def Let_def split: copier.splits prod.splits)
  next
    case 4
    then have "sole c p q t" using sole by (auto simp: sole_def)
    with 4 c carried_only_closed [OF xy(1)] carried_only_closed [OF xy(2)] show ?thesis
      by (simp add: forwards_def)
  qed
qed

lemma ended_step:
  assumes e: "relayers s c \<in> {Ended, Gone}" and inv: "relay_inv s" and st: "relay_step quote s t"
  shows "relayers t c \<in> {Ended, Gone}"
proof -
  have fin: "at (handlers s c) = Finished"
    using relay_invD(4) [OF inv, of c] e by (auto simp: inv_relayer_def Let_def)
  show ?thesis
    using st
  proof (cases rule: relay_step_groups)
    case (Handler d now)
    with fin have "c \<noteq> d" by auto
    with handler_frame [OF _ Handler(2)] e show ?thesis by simp
  next
    case (Forward d)
    then show ?thesis using e
      by (cases "d = c") (auto simp: copy_forward_def dest: copy_step_frame(3) split: prod.splits)
  next
    case (Back d)
    then show ?thesis using e
      by (cases "d = c") (auto simp: copy_back_def dest: copy_step_frame(3) split: prod.splits)
  next
    case Closing
    then show ?thesis using e close_sessions_frame [of "sessions s" s]
      by (auto simp: close_mark_def close_clear_def close_listener_def)
  qed (use e in \<open>auto simp: relay_start_def relay_finish_def relay_cleanup_def Let_def split: list.splits prod.splits\<close>)
qed

lemma forwards_run:
  assumes "reach relay_init (relay_step quote) s" and "(relay_step quote)\<^sup>*\<^sup>* s t"
    and "forwards there fro c p q s"
  shows "forwards there fro c p q t \<or> relayers t c \<in> {Ended, Gone}"
  by (rule relay.run_stable [OF assms(1,2)]) (use assms(3) forwards_step ended_step in blast)+

text \<open>
  C1: a relaying goroutine that has its session to itself delivers what it receives, in
  order. From a reachable state where the copying of a session has just started, both handlers of the
  session have returned and no second relaying goroutine serves it (\<open>sole\<close>; the section on races shows
  what happens otherwise), run the server in any way. What each peer has then been sent is what it
  had been sent before, followed by a prefix of what the other one sent. While the goroutine
  copies and both connections are open and take their writes, nothing is lost either: bytes sent,
  bytes in the copier's buffer and bytes still to be read make up exactly the whole.
\<close>

theorem relay_delivers_in_order:
  assumes "reach relay_init (relay_step quote) s" and "relayers s c = Copying p q (CopyRead 0) (CopyRead 0)"
    and "sole c p q s" and "(relay_step quote)\<^sup>*\<^sup>* s t" and "relayers t c = Copying p q x y"
  shows "(\<exists>rest. tx (conns s q) @ concat (rx (conns s p)) = tx (conns t q) @ rest)
    \<and> (\<exists>rest. tx (conns s p) @ concat (rx (conns s q)) = tx (conns t p) @ rest)
    \<and> (\<not> conn_closed (conns t p) \<and> \<not> conn_closed (conns t q)
        \<and> tx_room (conns t p) = None \<and> tx_room (conns t q) = None \<longrightarrow>
       tx (conns s q) @ concat (rx (conns s p)) = tx (conns t q) @ pending x @ concat (rx (conns t p))
       \<and> tx (conns s p) @ concat (rx (conns s q)) = tx (conns t p) @ pending y @ concat (rx (conns t q)))"
proof -
  let ?there = "tx (conns s q) @ concat (rx (conns s p))" and ?fro = "tx (conns s p) @ concat (rx (conns s q))"
  have "forwards ?there ?fro c p q s" using assms(2,3) by (auto simp: forwards_def carried_def)
  from forwards_run [OF assms(1,4) this] assms(5)
  have "carried ?there (conns t p) (conns t q) x" "carried ?fro (conns t q) (conns t p) y"
    by (auto simp: forwards_def)
  then show ?thesis by (auto simp: carried_def)
qed

section \<open>Single steps of a copier\<close>

text \<open>One read and one write of a copier.\<close>

lemma copy_step_read_piece:
  assumes "\<not> conn_closed (conns s src)" and "next_piece (rx (conns s src)) = b # ps"
  shows "copy_step r src dst (CopyRead n) s = (CopyWrite (take io_copy_buffer b) n,
    set_conn src ((conns s src)\<lparr>rx := drop io_copy_buffer b # ps\<rparr>) s)"
  using assms by (simp add: copy_step_def conn_read_def io_copy_buffer_def)

lemma copy_step_read:
  assumes "\<not> conn_closed (conns s src)" and "next_piece (rx (conns s src)) = b # ps" and "length b \<le> io_copy_buffer"
  shows "copy_step r src dst (CopyRead n) s = (CopyWrite b n, set_conn src ((conns s src)\<lparr>rx := [] # ps\<rparr>) s)"
  using copy_step_read_piece [OF assms(1,2)] assms(3) by simp

lemma copy_step_read_end:
  assumes "\<not> conn_closed (conns s src)" and "concat (rx (conns s src)) = []"
  shows "copy_step r src dst (CopyRead n) s = (CopyEnd n, set_conn src ((conns s src)\<lparr>rx := []\<rparr>) s)"
proof -
  have "next_piece (rx (conns s src)) = []" using assms(2) by (subst next_piece_Nil_iff)
  then show ?thesis using assms(1) by (simp add: copy_step_def conn_read_def io_copy_buffer_def)
qed

lemma copy_step_write:
  assumes "\<not> conn_closed (conns s dst)" and "tx_room (conns s dst) = None"
  shows "copy_step r src dst (CopyWrite b n) s
    = (CopyRead (n + length b), set_conn dst ((conns s dst)\<lparr>tx := tx (conns s dst) @ b\<rparr>) s)"
  using assms by (simp add: copy_step_def conn_write_ok)

lemma forward_step: "relayers s c = Copying p q x y \<Longrightarrow> copy_forward c s = t \<Longrightarrow> relay_step quote s t"
  using relay_step.Forward [of s c p q x y quote] by simp

lemma back_step: "relayers s c = Copying p q x y \<Longrightarrow> copy_back c s = t \<Longrightarrow> relay_step quote s t"
  using relay_step.Back [of s c p q x y quote] by simp

section \<open>Races\<close>

text \<open>Two copiers of the same direction.\<close>

lemma two_copiers_reorder:
  assumes ne: "c \<noteq> d"
    and r: "relayers s c = Copying c d (CopyRead 0) y" "relayers s d = Copying c d (CopyRead 0) z"
    and k: "\<not> conn_closed (conns s c)" "next_piece (rx (conns s c)) = b1 # b2 # bs" "b2 \<noteq> []"
    and len: "length b1 \<le> io_copy_buffer" "length b2 \<le> io_copy_buffer"
    and l: "\<not> conn_closed (conns s d)" "tx_room (conns s d) = None"
  shows "\<exists>t x x'. (relay_step quote)\<^sup>*\<^sup>* s t \<and> relayers t c = Copying c d x y \<and> relayers t d = Copying c d x' z
    \<and> tx (conns t d) = tx (conns s d) @ b2 @ b1"
proof -
  let ?k = "\<lambda>ps. (conns s c)\<lparr>rx := [] # ps\<rparr>" and ?l = "\<lambda>bs. (conns s d)\<lparr>tx := tx (conns s d) @ bs\<rparr>"
  define w1 where "w1 = set_relayer c (Copying c d (CopyWrite b1 0) y) (set_conn c (?k (b2 # bs)) s)"
  define w2 where "w2 = set_relayer d (Copying c d (CopyWrite b2 0) z) (set_conn c (?k bs) w1)"
  define w3 where "w3 = set_relayer d (Copying c d (CopyRead (length b2)) z) (set_conn d (?l b2) w2)"
  define w4 where "w4 = set_relayer c (Copying c d (CopyRead (length b1)) y) (set_conn d (?l (b2 @ b1)) w3)"
  have b2: "next_piece ([] # b2 # bs) = b2 # bs" using k(3) by (cases b2) auto
  have "relay_step quote s w1"
    by (rule forward_step [OF r(1)]) (use r k len in \<open>simp add: w1_def copy_forward_def copy_step_read\<close>)
  moreover have "relay_step quote w1 w2"
    by (rule forward_step [of _ d c d "CopyRead 0" z])
      (use ne r k len b2 in \<open>simp_all add: w1_def w2_def copy_forward_def copy_step_read\<close>)
  moreover have "relay_step quote w2 w3"
    by (rule forward_step [of _ d c d "CopyWrite b2 0" z])
      (use ne l in \<open>simp_all add: w1_def w2_def w3_def copy_forward_def copy_step_write\<close>)
  moreover have "relay_step quote w3 w4"
    by (rule forward_step [of _ c c d "CopyWrite b1 0" y])
      (use ne l in \<open>simp_all add: w1_def w2_def w3_def w4_def copy_forward_def copy_step_write\<close>)
  ultimately have "(relay_step quote)\<^sup>*\<^sup>* s w4" by (meson rtranclp.rtrancl_into_rtrancl rtranclp.rtrancl_refl)
  moreover have "relayers w4 d = Copying c d (CopyRead (length b2)) z" "tx (conns w4 d) = tx (conns s d) @ b2 @ b1"
    "relayers w4 c = Copying c d (CopyRead (length b1)) y"
    using ne by (simp_all add: w4_def w3_def)
  ultimately show ?thesis by blast
qed

text \<open>
  C34: two relaying goroutines can serve one session, and then the bytes of a client get
  out of order. \<open>PeerCount\<close> is read after the acknowledgment, outside any lock. If the
  first client's handler is delayed between its acknowledgment and that check until the
  second client has joined, both handlers see two peers and both start to copy; of two
  pieces the first client sends, each copier may take one, and the later piece can be
  written first.
\<close>

theorem double_relay_reorders:
  assumes "serving s" and "c \<noteq> d"
    and "at (handlers s c) = Absent" and "at (handlers s d) = Absent"
    and "ReadHandshake (conns s c) = Some (Inr m, k)" and "\<not> conn_closed k" and "tx_room k = None"
    and "ReadHandshake (conns s d) = Some (Inr n, l)" and "\<not> conn_closed l" and "tx_room l = None"
    and "hs_SessionID n = hs_SessionID m" and "map_of (sessions s) (hs_SessionID m) = None"
    and "int (SessionCount s) < MaxSessions (cfg s)"
    and "next_piece (rx k) = b1 # b2 # bs" and "b2 \<noteq> []"
    and "length b1 \<le> io_copy_buffer" and "length b2 \<le> io_copy_buffer"
  shows "\<exists>t. (relay_step quote)\<^sup>*\<^sup>* s t \<and> (\<exists>x y. relayers t c = Copying c d x y)
    \<and> (\<exists>x y. relayers t d = Copying c d x y) \<and> tx (conns t d) = tx l @ ack_bytes None @ b2 @ b1"
proof -
  define u where "u = (handler_segment quote 0 c ^^ 4) (accept c s)"
  note u = first_client_acked [OF assms(5-7,12) assms(13) [unfolded SessionCount_def] u_def [symmetric]]
  define v where "v = handleConnection quote 0 d u"
  have rd: "ReadHandshake (conns u d) = Some (Inr n, l)" using assms(2,8) u by simp
  have in_u: "map_of (sessions u) (hs_SessionID n) = Some (next_ref s)" using u assms(11) by simp
  have v: "conns v = (conns u)(d := l\<lparr>tx := tx l @ ack_bytes None\<rparr>)" "relayers v = (relayers u)(d := Starting)"
    "GetPeers (heap v (next_ref s)) = [c, d]" "peerCount (heap v (next_ref s)) = 2"
    "handlers v = (handlers u)(d := \<lparr>at = Finished, handshake_id = hs_SessionID n, session_ref = next_ref s\<rparr>)"
    using handleConnection_second [OF rd assms(9,10) in_u _ _ _ v_def [symmetric], of c] u assms(2) by auto
  define v1 where "v1 = handle_count c v"
  have v1: "v1 = set_relayer c Starting (goto c Finished v)"
    using u v assms(2) by (simp add: v1_def handle_count_def PeerCount_def set_relayer_def goto_def)
  define v2 where "v2 = relay_start c v1"
  have v2: "v2 = set_relayer c (Copying c d (CopyRead 0) (CopyRead 0)) v1"
    using u v assms(2) by (simp add: v2_def v1 relay_start_def)
  define w where "w = relay_start d v2"
  have w: "w = set_relayer d (Copying c d (CopyRead 0) (CopyRead 0)) v2"
    using u v assms(2) by (simp add: w_def v1 v2 relay_start_def)
  have "(relay_step quote)\<^sup>*\<^sup>* s u"
    unfolding u_def by (rule accepted_run [OF assms(1,3)])
  moreover have "(relay_step quote)\<^sup>*\<^sup>* u v"
    unfolding v_def by (rule handleConnection_run) (use u assms(1,2,4) in auto)
  moreover have "relay_step quote v v1"
    unfolding v1_def by (rule relay_step.Count) (use u v assms(2) in auto)
  moreover have "relay_step quote v1 v2"
    unfolding v2_def by (rule relay_step.Relay) (simp add: v1)
  moreover have "relay_step quote v2 w"
    unfolding w_def by (rule relay_step.Relay) (use v assms(2) in \<open>simp add: v2 v1\<close>)
  ultimately have "(relay_step quote)\<^sup>*\<^sup>* s w"
    by (meson rtranclp.rtrancl_into_rtrancl rtranclp_trans)
  moreover have "conns w c = k\<lparr>tx := tx k @ ack_bytes None\<rparr>" "conns w d = l\<lparr>tx := tx l @ ack_bytes None\<rparr>"
    "relayers w c = Copying c d (CopyRead 0) (CopyRead 0)" "relayers w d = Copying c d (CopyRead 0) (CopyRead 0)"
    using u v assms(2) by (simp_all add: w v2 v1)
  then obtain t x x' where "(relay_step quote)\<^sup>*\<^sup>* w t" "relayers t c = Copying c d x (CopyRead 0)"
    "relayers t d = Copying c d x' (CopyRead 0)" "tx (conns t d) = tx l @ ack_bytes None @ b2 @ b1"
    using two_copiers_reorder [of c d w "CopyRead 0" "CopyRead 0" b1 b2 bs quote] assms(2,6,9,10,14-17) by auto
  ultimately show ?thesis by (meson rtranclp_trans)
qed

text \<open>
  C35: data can overtake the acknowledgment. If the first client's handler is delayed
  between \<open>AddPeer\<close> and its acknowledgment, the second client's handler already relays,
  and what the second client sends reaches the first one before the acknowledgment does:
  the first client then reads data where it expects the acknowledgment's magic bytes.
\<close>

theorem data_before_ack:
  assumes "serving s" and "c \<noteq> d"
    and "at (handlers s c) = Absent" and "at (handlers s d) = Absent"
    and "ReadHandshake (conns s c) = Some (Inr m, k)" and "\<not> conn_closed k" and "tx_room k = None"
    and "ReadHandshake (conns s d) = Some (Inr n, l)" and "\<not> conn_closed l" and "tx_room l = None"
    and "hs_SessionID n = hs_SessionID m" and "map_of (sessions s) (hs_SessionID m) = None"
    and "int (SessionCount s) < MaxSessions (cfg s)"
    and "next_piece (rx l) = b # bs" and "length b \<le> io_copy_buffer"
  shows "\<exists>t. (relay_step quote)\<^sup>*\<^sup>* s t \<and> at (handlers t c) = Counting \<and> tx (conns t c) = tx k @ b @ ack_bytes None"
proof -
  define u where "u = (handler_segment quote 0 c ^^ 3) (accept c s)"
  note u = first_client_added [OF assms(5,12) assms(13) [unfolded SessionCount_def] u_def [symmetric]]
  define v where "v = handleConnection quote 0 d u"
  have rd: "ReadHandshake (conns u d) = Some (Inr n, l)" using assms(2,8) u by simp
  have in_u: "map_of (sessions u) (hs_SessionID n) = Some (next_ref s)" using u assms(11) by simp
  have v: "conns v = (conns u)(d := l\<lparr>tx := tx l @ ack_bytes None\<rparr>)" "relayers v = (relayers u)(d := Starting)"
    "GetPeers (heap v (next_ref s)) = [c, d]"
    "handlers v = (handlers u)(d := \<lparr>at = Finished, handshake_id = hs_SessionID n, session_ref = next_ref s\<rparr>)"
    using handleConnection_second [OF rd assms(9,10) in_u _ _ _ v_def [symmetric], of c] u assms(2) by auto
  define w0 where "w0 = relay_start d v"
  have w0: "w0 = set_relayer d (Copying c d (CopyRead 0) (CopyRead 0)) v"
    using v by (simp add: w0_def relay_start_def)
  define w1 where "w1 = set_relayer d (Copying c d (CopyRead 0) (CopyWrite b 0))
    (set_conn d (l\<lparr>tx := tx l @ ack_bytes None, rx := [] # bs\<rparr>) w0)"
  define w2 where "w2 = set_relayer d (Copying c d (CopyRead 0) (CopyRead (length b))) (set_conn c (k\<lparr>tx := tx k @ b\<rparr>) w1)"
  have "(relay_step quote)\<^sup>*\<^sup>* s u" unfolding u_def by (rule accepted_run [OF assms(1,3)])
  moreover have "(relay_step quote)\<^sup>*\<^sup>* u v"
    unfolding v_def by (rule handleConnection_run) (use u assms(1,2,4) in auto)
  moreover have "relay_step quote v w0" unfolding w0_def by (rule relay_step.Relay) (use v in simp)
  moreover have "relay_step quote w0 w1"
    by (rule back_step [of _ d c d "CopyRead 0" "CopyRead 0"])
      (use v assms in \<open>simp_all add: w0 w1_def copy_back_def copy_step_read\<close>)
  moreover have "relay_step quote w1 w2"
    by (rule back_step [of _ d c d "CopyRead 0" "CopyWrite b 0"])
      (use u v assms in \<open>simp_all add: w0 w1_def w2_def copy_back_def copy_step_write\<close>)
  moreover have c2: "at (handlers w2 c) = Acking" "conns w2 c = k\<lparr>tx := tx k @ b\<rparr>"
    using u v assms(2) by (simp_all add: w2_def w1_def w0)
  have "relay_step quote w2 (handle_ack c w2)" by (rule relay_step.Ack [OF c2(1)])
  ultimately have "(relay_step quote)\<^sup>*\<^sup>* s (handle_ack c w2)"
    by (meson rtranclp.rtrancl_into_rtrancl rtranclp_trans)
  with c2 assms(6,7) show ?thesis by (intro exI [of _ "handle_ack c w2"]) (simp add: handle_ack_ok)
qed

section \<open>Abandoned sessions\<close>

definition abandoned :: "string \<Rightarrow> nat \<Rightarrow> conn_id \<Rightarrow> server \<Rightarrow> bool" where
  "abandoned i r c s \<longleftrightarrow> map_of (sessions s) i = Some r \<and> GetPeers (heap s r) = [c]
     \<and> at (handlers s c) = Finished \<and> (\<forall>d. d \<noteq> c \<longrightarrow> handshake_id (handlers s d) \<noteq> i)"

lemma copy_step_session:
  "copy_step r src dst x s = (x', t) \<Longrightarrow> sessions t = sessions s \<and> handlers t = handlers s
     \<and> (\<forall>q. GetPeers (heap t q) = GetPeers (heap s q))"
  using copy_step_frame [of r src dst x s x' t] by auto

lemma abandoned_step:
  assumes inv: "relay_inv s" and ab: "abandoned i r c s" and st: "relay_step quote s t"
    and ne: "closing t \<noteq> CloseCleared" "\<And>d. d \<noteq> c \<Longrightarrow> handshake_id (handlers t d) \<noteq> i"
  shows "abandoned i r c t"
proof -
  have i: "map_of (sessions s) i = Some r" "at (handlers s c) = Finished" "GetPeers (heap s r) = [c]"
    and o: "\<And>d. d \<noteq> c \<Longrightarrow> handshake_id (handlers s d) \<noteq> i"
    using ab by (auto simp: abandoned_def)
  have r: "r < next_ref s" "ID (heap s r) = i" using relay_invD(1) [OF inv] i by (auto simp: inv_table_def)
  have "session_ok (heap s r)" using relay_invD(2) [OF inv r(1)] by (simp add: inv_session_def)
  from length_GetPeers [OF this] i have one: "peerCount (heap s r) = 1" by simp
  have "session_ref (handlers s c) = r" using relay_invD(2) [OF inv r(1)] i by (simp add: inv_session_def)
  then have idle: "relayers s c = NoRelay"
    using relay_invD(4) [OF inv, of c] one by (auto simp: inv_relayer_def Let_def)
  have live: "handshake_id (handlers s d) \<noteq> i" if "at (handlers s d) \<noteq> Finished \<or> relayers s d \<noteq> NoRelay" for d
    using that i(2) idle o [of d] by (cases "d = c") auto
  have keep: "map_of (sessions t) i = Some r \<and> GetPeers (heap t r) = [c] \<and> at (handlers t c) = Finished"
    using st
  proof cases
    case (Read d)
    then show ?thesis using i by (auto simp: handle_read_def split: option.split sum.split prod.split)
  next
    case (Lock d now)
    then have "handshake_id (handlers s d) \<noteq> i" using live [of d] by auto
    with Lock i r show ?thesis by (auto simp: handle_lock_def Let_def split: option.split)
  next
    case (Add d)
    then have "handshake_id (handlers s d) \<noteq> i" using live [of d] by auto
    then have "session_ref (handlers s d) \<noteq> r"
      using relay_invD(3) [OF inv, of d] Add r by (auto simp: inv_handler_def Let_def)
    with Add i show ?thesis by (auto simp: handle_add_def Let_def split: prod.split option.split)
  next
    case (Clean d)
    then have "handshake_id (handlers s d) \<noteq> i" using live [of d] by auto
    with Clean i show ?thesis by (auto simp: handle_clean_def)
  next
    case (Cleanup d)
    then have "handshake_id (handlers s d) \<noteq> i" using live [of d] by auto
    with Cleanup i show ?thesis by (auto simp: relay_cleanup_def)
  next
    case (Forward d)
    with i show ?thesis by (auto simp: copy_forward_def dest: copy_step_session split: prod.split)
  next
    case (Back d)
    with i show ?thesis by (auto simp: copy_back_def dest: copy_step_session split: prod.split)
  next
    case (Finish d)
    with i show ?thesis by (auto simp: relay_finish_def Let_def case_prod_beta)
  next
    case CloseClear
    with ne(1) show ?thesis by (simp add: close_clear_def)
  qed (use i in \<open>auto simp: accept_def handle_ack_def handle_count_def relay_start_def close_mark_def close_listener_def
      split: prod.split option.split list.split\<close>)
  then show ?thesis using ne(2) by (simp add: abandoned_def)
qed

text \<open>
  C36: a session whose only client is gone is never reclaimed. Take a session of the table
  whose first client's handler has returned, and which no other connection has asked for.
  No step of the server removes it or its entry, whatever the client's connection does,
  until another connection presents that id or the server is closed. With \<open>MaxSessions\<close>
  such entries in the table, every client with a new id is refused and disconnected.
\<close>

theorem abandoned_session_stays:
  assumes "reach relay_init (relay_step quote) s" and "abandoned i r c s"
    and "(\<lambda>u v. relay_step quote u v \<and> closing v \<noteq> CloseCleared
           \<and> (\<forall>d. d \<noteq> c \<longrightarrow> handshake_id (handlers v d) \<noteq> i))\<^sup>*\<^sup>* s t"
  shows "map_of (sessions t) i = Some r \<and> GetPeers (heap t r) = [c]
    \<and> (MaxSessions (cfg t) = int (SessionCount t) \<longrightarrow>
        (\<forall>d now. at (handlers t d) = Locking \<and> map_of (sessions t) (handshake_id (handlers t d)) = None \<longrightarrow>
           handle_lock now d t = goto d Finished (refuse d ''max sessions reached'' t)
           \<and> conn_closed (conns (handle_lock now d t) d)))"
proof -
  have "abandoned i r c t \<and> reach relay_init (relay_step quote) t"
    using assms(3,1,2)
    by (induction rule: rtranclp_induct) (auto intro: reach_step abandoned_step relay.reach_inv)
  then show ?thesis
    by (auto simp: abandoned_def handle_lock_def SessionCount_def Let_def refuse_def conn_simps)
qed

section \<open>The properties at work\<close>

text \<open>
  A server with the default configuration and clients that all ask for the session \<open>s1\<close>:
  connection 0 as initiator, with three more bytes in two pieces; the others as
  responders, with one more byte.
\<close>

definition hs0 :: HandshakeMessage where "hs0 = \<lparr>hs_SessionID = ''s1'', hs_PeerType = PeerTypeInitiator\<rparr>"
definition hs1 :: HandshakeMessage where "hs1 = \<lparr>hs_SessionID = ''s1'', hs_PeerType = PeerTypeResponder\<rparr>"

definition clients :: "conn_id \<Rightarrow> conn" where
  "clients c = (if c = 0 then idle_conn [handshake_bytes hs0, [10, 11], [12]] else idle_conn [handshake_bytes hs1, [20]])"

definition demo :: server where "demo = start_server DefaultRelayConfig clients"

lemma demo_simps [simp]:
  "reach relay_init (relay_step quote) demo" "serving demo" "at (handlers demo c) = Absent" "sessions demo = []"
  "next_ref demo = 0" "MaxSessions (cfg demo) = 1000" "conns demo = clients" "SessionCount demo = 0"
  "relayers demo c = NoRelay" "handlers demo c = idle_handler"
  by (simp_all add: demo_def reach_start DefaultRelayConfig_def SessionCount_def)

lemma read_clients:
  "ReadHandshake (clients 0) = Some (Inr hs0, idle_conn [[], [10, 11], [12]])"
  "c \<noteq> 0 \<Longrightarrow> ReadHandshake (clients c) = Some (Inr hs1, idle_conn [[], [20]])"
  using handshake_one_piece [of hs0 "[]" "[[10, 11], [12]]"] handshake_one_piece [of hs1 "[]" "[[20]]"]
  by (simp_all add: clients_def hs0_def hs1_def handshake_valid_def handshake_bytes_def bufio_size_def)

lemma hs_ids [simp]: "hs_SessionID hs0 = ''s1''" "hs_SessionID hs1 = ''s1''"
  by (simp_all add: hs0_def hs1_def)

text \<open>After the first client, after the second, and when the relaying goroutine has started.\<close>

definition waiting :: server where "waiting = handleConnection (\<lambda>x. x) 0 0 demo"
definition paired :: server where "paired = handleConnection (\<lambda>x. x) 0 2 waiting"
definition relaying :: server where "relaying = relay_start 2 paired"

lemma waiting_facts:
  "conns waiting = clients(0 := (idle_conn [[], [10, 11], [12]])\<lparr>tx := ack_bytes None\<rparr>)"
  "relayers waiting c = NoRelay" "serving waiting" "sessions waiting = [(''s1'', 0)]"
  "GetPeers (heap waiting 0) = [0]" "session_ok (heap waiting 0)"
  "handlers waiting = (\<lambda>_. idle_handler)(0 := \<lparr>at = Finished, handshake_id = ''s1'', session_ref = 0\<rparr>)"
proof -
  have h: "handlers demo = (\<lambda>_. idle_handler)" by (simp add: demo_def)
  have "ReadHandshake (conns demo 0) = Some (Inr hs0, idle_conn [[], [10, 11], [12]])" by (simp add: read_clients)
  from handleConnection_first [OF this _ _ _ _ waiting_def [symmetric]] h
  show "conns waiting = clients(0 := (idle_conn [[], [10, 11], [12]])\<lparr>tx := ack_bytes None\<rparr>)"
    "relayers waiting c = NoRelay" "serving waiting" "sessions waiting = [(''s1'', 0)]"
    "GetPeers (heap waiting 0) = [0]" "session_ok (heap waiting 0)"
    "handlers waiting = (\<lambda>_. idle_handler)(0 := \<lparr>at = Finished, handshake_id = ''s1'', session_ref = 0\<rparr>)"
    by simp_all
qed

lemma paired_facts:
  "conns paired 0 = (idle_conn [[], [10, 11], [12]])\<lparr>tx := ack_bytes None\<rparr>"
  "conns paired 2 = (idle_conn [[], [20]])\<lparr>tx := ack_bytes None\<rparr>" "conns paired 5 = clients 5"
  "relayers paired 0 = NoRelay" "relayers paired 2 = Starting" "serving paired" "sessions paired = [(''s1'', 0)]"
  "GetPeers (heap paired 0) = [0, 2]" "peerCount (heap paired 0) = 2"
  "at (handlers paired 0) = Finished" "at (handlers paired 2) = Finished" "session_ref (handlers paired 2) = 0"
  "at (handlers paired 5) = Absent"
proof -
  have "ReadHandshake (conns waiting 2) = Some (Inr hs1, idle_conn [[], [20]])" by (simp add: read_clients waiting_facts)
  from handleConnection_second [OF this _ _ _ _ _ _ paired_def [symmetric], of 0 0]
  have "conns paired = (conns waiting)(2 := (idle_conn [[], [20]])\<lparr>tx := ack_bytes None\<rparr>)
    \<and> relayers paired = (relayers waiting)(2 := Starting) \<and> serving paired \<and> sessions paired = [(''s1'', 0)]
    \<and> peerCount (heap paired 0) = 2 \<and> GetPeers (heap paired 0) = [0, 2]
    \<and> handlers paired = (handlers waiting)(2 := \<lparr>at = Finished, handshake_id = ''s1'', session_ref = 0\<rparr>)"
    by (simp add: waiting_facts)
  then show "conns paired 0 = (idle_conn [[], [10, 11], [12]])\<lparr>tx := ack_bytes None\<rparr>"
    "conns paired 2 = (idle_conn [[], [20]])\<lparr>tx := ack_bytes None\<rparr>" "conns paired 5 = clients 5"
    "relayers paired 0 = NoRelay" "relayers paired 2 = Starting" "serving paired" "sessions paired = [(''s1'', 0)]"
    "GetPeers (heap paired 0) = [0, 2]" "peerCount (heap paired 0) = 2"
    "at (handlers paired 0) = Finished" "at (handlers paired 2) = Finished" "session_ref (handlers paired 2) = 0"
    "at (handlers paired 5) = Absent"
    by (simp_all add: waiting_facts)
qed

lemma reach_waiting: "reach relay_init (relay_step (\<lambda>x. x)) waiting"
  unfolding waiting_def by (rule relay.reach_run [OF _ handleConnection_run]) simp_all

lemma reach_paired: "reach relay_init (relay_step (\<lambda>x. x)) paired"
  unfolding paired_def by (rule relay.reach_run [OF reach_waiting handleConnection_run]) (simp_all add: waiting_facts)

lemma reach_relaying: "reach relay_init (relay_step (\<lambda>x. x)) relaying"
  unfolding relaying_def by (rule reach_step [OF reach_paired relay_step.Relay]) (simp add: paired_facts)

lemma relaying_eq: "relaying = set_relayer 2 (Copying 0 2 (CopyRead 0) (CopyRead 0)) paired"
  by (simp add: relaying_def relay_start_def paired_facts)

theorem sessions_bounded_witness: "int (SessionCount paired) \<le> max 0 (MaxSessions (cfg paired)) \<and> SessionCount paired = 1"
  using sessions_bounded [OF reach_paired] by (simp add: SessionCount_def paired_facts)

theorem relay_isolation_witness: "handshake_id (handlers relaying 0) = handshake_id (handlers relaying 2)"
  using relay_isolation [OF reach_relaying, of 2 0 2 "CopyRead 0" "CopyRead 0"] by (simp add: relaying_eq)

text \<open>A third client of the session, refused and about to clean up.\<close>

definition refusing :: server where "refusing = (handler_segment (\<lambda>x. x) 0 5 ^^ 3) (accept 5 paired)"

lemma funpow_3: "(f ^^ 3) x = f (f (f x))"
  by (simp add: numeral_3_eq_3)

lemma refusing_at: "at (handlers refusing 5) = Cleaning"
proof -
  have r: "ReadHandshake (clients 5) = Some (Inr hs1, idle_conn [[], [20]])" by (simp add: read_clients)
  show ?thesis
    by (simp add: refusing_def funpow_3 accept_def handle_read_ok paired_facts r handle_lock_found
        handle_add_def AddPeer_def Let_def)
qed

lemma clean_never_deletes_witness: "handle_clean 5 refusing = goto 5 Finished refusing"
proof -
  have "reach relay_init (relay_step (\<lambda>x. x)) refusing"
    unfolding refusing_def by (rule relay.reach_run [OF reach_paired accepted_run]) (simp_all add: paired_facts)
  from clean_never_deletes [OF this refusing_at] show ?thesis by simp
qed

theorem handleConnection_returns_witness:
  "at (handlers waiting 0) = Finished \<and> tx (conns waiting 0) = tx (conns demo 0) @ ack_bytes None"
  using handleConnection_returns [of "\<lambda>x. x" demo 0 waiting 0] by (simp add: waiting_facts clients_def waiting_def [symmetric])

theorem two_clients_paired_witness:
  "relayers paired 0 = NoRelay \<and> relayers paired 2 = Starting \<and> SessionCount paired = 1"
  using two_clients_paired [where s = demo and c = 0 and d = 2 and t = paired and quote = "\<lambda>x. x" and now = 0
      and now' = 0 and m = hs0 and n = hs1 and k = "idle_conn [[], [10, 11], [12]]" and l = "idle_conn [[], [20]]"]
  by (simp add: read_clients paired_def waiting_def)

theorem relay_delivers_in_order_witness:
  "\<exists>rest. ack_bytes None @ [10, 11, 12] = tx (conns (copy_forward 2 relaying) 2) @ rest"
proof -
  have t: "relay_step (\<lambda>x. x) relaying (copy_forward 2 relaying)"
    by (rule relay_step.Forward) (simp add: relaying_eq)
  have x: "relayers (copy_forward 2 relaying) 2 = Copying 0 2 (CopyWrite [10, 11] 0) (CopyRead 0)"
    by (simp add: copy_forward_def relaying_eq copy_step_read paired_facts io_copy_buffer_def)
  have sole: "sole 2 0 2 relaying" by (auto simp: sole_def relaying_eq paired_facts)
  show ?thesis
    using relay_delivers_in_order [OF reach_relaying _ sole r_into_rtranclp [of "relay_step (\<lambda>x. x)", OF t] x]
    by (simp add: relaying_eq paired_facts)
qed

theorem double_relay_reorders_witness:
  "\<exists>t. (relay_step (\<lambda>x. x))\<^sup>*\<^sup>* demo t \<and> tx (conns t 2) = ack_bytes None @ [12] @ [10, 11]"
  using double_relay_reorders [of demo 0 2 hs0 "idle_conn [[], [10, 11], [12]]" hs1 "idle_conn [[], [20]]"
      "[10, 11]" "[12]" "[]" "\<lambda>x. x"]
  by (auto simp: read_clients io_copy_buffer_def)

theorem data_before_ack_witness:
  "\<exists>t. (relay_step (\<lambda>x. x))\<^sup>*\<^sup>* demo t \<and> tx (conns t 0) = [20] @ ack_bytes None"
  using data_before_ack [of demo 0 2 hs0 "idle_conn [[], [10, 11], [12]]" hs1 "idle_conn [[], [20]]" "[20]" "[]" "\<lambda>x. x"]
  by (auto simp: read_clients io_copy_buffer_def)

theorem abandoned_session_stays_witness: "map_of (sessions waiting) ''s1'' = Some 0"
proof -
  have "abandoned ''s1'' 0 0 waiting" by (simp add: abandoned_def waiting_facts idle_handler_def)
  from abandoned_session_stays [OF reach_waiting this rtranclp.rtrancl_refl] show ?thesis by simp
qed

end
