(* ===== verification/Relay_Completion.thy ===== *)
theory Relay_Completion
  imports Relay_Properties
begin

text \<open>
  The relaying goroutine comes to its end. Its steps use up a budget (\<open>relay_work\<close>) that no
  other goroutine touches, under every interleaving; and the direction of the copying that
  ends first has delivered everything. The direction that ends second may lose data: the first
  one closes the connection it reads from.
\<close>

section \<open>The work left\<close>

fun copier_work :: "byte list \<Rightarrow> copier \<Rightarrow> nat" where
  "copier_work bs (CopyRead _) = 2 * length bs + 2"
| "copier_work bs (CopyWrite _ _) = 2 * length bs + 3"
| "copier_work bs (CopyEnd _) = 1"
| "copier_work bs CopyDone = 0"

definition relay_work :: "conn_id \<Rightarrow> server \<Rightarrow> nat" where
  "relay_work c s =
     (case relayers s c of
        Copying p q x y \<Rightarrow> copier_work (concat (rx (conns s p))) x + copier_work (concat (rx (conns s q))) y + 1
      | _ \<Rightarrow> 0)"

lemma conn_read_some: "conn_read k c = (Inr bs, d) \<Longrightarrow> 0 < k \<Longrightarrow> bs \<noteq> []"
  by (auto simp: conn_read_def dest: next_piece_hd split: if_splits list.splits)

lemma copy_step_work:
  assumes st: "copy_step r src dst z s = (z', t)" and ne: "src \<noteq> dst" and z: "z \<noteq> CopyDone"
  shows "copier_work (concat (rx (conns t src))) z' < copier_work (concat (rx (conns s src))) z"
proof (cases z)
  case (CopyRead n)
  obtain x k where rd: "conn_read io_copy_buffer (conns s src) = (x, k)" by fastforce
  show ?thesis
  proof (cases x)
    case (Inl e)
    then show ?thesis using st rd CopyRead by (auto simp: copy_step_def)
  next
    case (Inr bs)
    have "bs \<noteq> []" using conn_read_some [of io_copy_buffer "conns s src" bs k] rd Inr by (simp add: io_copy_buffer_def)
    moreover have "concat (rx (conns s src)) = bs @ concat (rx k)" by (rule conn_read_frame(4) [OF rd Inr])
    ultimately show ?thesis using st rd CopyRead Inr by (cases bs) (auto simp: copy_step_def)
  qed
next
  case (CopyWrite bs n)
  then show ?thesis using st ne by (auto simp: copy_step_def split: option.splits prod.splits)
qed (use st ne z in \<open>auto simp: copy_step_def\<close>)

lemma copy_step_other:
  assumes "copy_step r src dst z s = (z', t)" "src \<noteq> dst"
  shows "rx (conns t dst) = rx (conns s dst)"
  using assms
  by (auto simp: copy_step_def conn_close_def dest: conn_write_frame split: copier.splits prod.splits sum.splits option.splits)

lemma copy_step_rest: "copy_step r src dst CopyDone s = (z', t) \<Longrightarrow> z' = CopyDone \<and> t = s"
  by (simp add: copy_step_def)

text \<open>What every step of the server does to the budget of a goroutine that has its session to itself.\<close>

lemma forward_work:
  assumes c: "relayers s c = Copying p q x y" and ne: "p \<noteq> q"
  shows "x = CopyDone \<Longrightarrow> relayers (copy_forward c s) c = relayers s c \<and> relay_work c (copy_forward c s) = relay_work c s"
    and "x \<noteq> CopyDone \<Longrightarrow> relay_work c (copy_forward c s) < relay_work c s"
proof -
  obtain x' t where t: "copy_step (session_ref (handlers s c)) p q x s = (x', t)" by fastforce
  then have eq: "copy_forward c s = set_relayer c (Copying p q x' y) t" using c by (simp add: copy_forward_def)
  have other: "rx (conns t q) = rx (conns s q)" by (rule copy_step_other [OF t ne])
  show "x = CopyDone \<Longrightarrow> relayers (copy_forward c s) c = relayers s c \<and> relay_work c (copy_forward c s) = relay_work c s"
    using t c eq by (auto simp: relay_work_def dest: copy_step_rest)
  show "x \<noteq> CopyDone \<Longrightarrow> relay_work c (copy_forward c s) < relay_work c s"
    using copy_step_work [OF t ne] c eq other by (simp add: relay_work_def)
qed

lemma back_work:
  assumes c: "relayers s c = Copying p q x y" and ne: "p \<noteq> q"
  shows "y = CopyDone \<Longrightarrow> relayers (copy_back c s) c = relayers s c \<and> relay_work c (copy_back c s) = relay_work c s"
    and "y \<noteq> CopyDone \<Longrightarrow> relay_work c (copy_back c s) < relay_work c s"
proof -
  obtain y' t where t: "copy_step (session_ref (handlers s c)) q p y s = (y', t)" by fastforce
  then have eq: "copy_back c s = set_relayer c (Copying p q x y') t" using c by (simp add: copy_back_def)
  have other: "rx (conns t p) = rx (conns s p)" by (rule copy_step_other [OF t ne [symmetric]])
  show "y = CopyDone \<Longrightarrow> relayers (copy_back c s) c = relayers s c \<and> relay_work c (copy_back c s) = relay_work c s"
    using t c eq by (auto simp: relay_work_def dest: copy_step_rest)
  show "y \<noteq> CopyDone \<Longrightarrow> relay_work c (copy_back c s) < relay_work c s"
    using copy_step_work [OF t ne [symmetric]] c eq other by (simp add: relay_work_def)
qed

lemma peers_distinct: "relay_inv s \<Longrightarrow> relayers s c = Copying p q x y \<Longrightarrow> p \<noteq> q"
  using relay_invD(4) [of s c] relay_invD(2) [of s "session_ref (handlers s c)"]
  by (auto simp: inv_relayer_def inv_session_def session_ok_def Let_def)

lemma relay_step_work:
  assumes inv: "relay_inv s" and c: "relayers s c = Copying p q x y" and sole: "sole c p q s" and st: "relay_step quote s t"
  shows "relayers t c = relayers s c \<and> relay_work c t = relay_work c s \<or> relay_work c t < relay_work c s"
proof -
  note ne = peers_distinct [OF inv c]
  consider "t = copy_forward c s" | "t = copy_back c s" | "t = relay_finish c s"
    | "\<forall>e \<in> {c, p, q}. relayers t e = relayers s e \<and> only_closed (conns s e) (conns t e)"
    using step_of_others [OF inv c sole st] by blast
  then show ?thesis
  proof cases
    case 1 then show ?thesis using forward_work [OF c ne] by blast
  next
    case 2 then show ?thesis using back_work [OF c ne] by blast
  next
    case 3 then show ?thesis using c by (auto simp: relay_finish_def relay_work_def Let_def split: copier.splits prod.splits)
  next
    case 4
    then have "rx (conns t p) = rx (conns s p)" "rx (conns t q) = rx (conns s q)" using only_closedD by fastforce+
    with 4 show ?thesis using c by (simp add: relay_work_def)
  qed
qed

lemma relay_proceeds:
  assumes "relay_inv s" and c: "relayers s c = Copying p q x y"
  shows "\<exists>t. relay_step quote s t \<and> relay_work c t < relay_work c s"
proof -
  note ne = peers_distinct [OF assms]
  consider "x \<noteq> CopyDone" | "y \<noteq> CopyDone" | "x = CopyDone" "y = CopyDone" by blast
  then show ?thesis
  proof cases
    case 1 then show ?thesis using forward_work(2) [OF c ne] relay_step.Forward [OF c] by blast
  next
    case 2 then show ?thesis using back_work(2) [OF c ne] relay_step.Back [OF c] by blast
  next
    case 3
    then have "relay_work c (relay_finish c s) < relay_work c s"
      using c by (auto simp: relay_finish_def relay_work_def Let_def split: prod.splits)
    then show ?thesis using relay_step.Finish [of s c p q quote] c 3 by blast
  qed
qed

section \<open>What has been delivered\<close>

text \<open>
  Both directions at once, as long as nobody else closes their connections: a connection
  is open while it is written to; and of the two directions, the one that ended first has
  delivered all it was to carry.
\<close>

definition settled :: "byte list \<Rightarrow> byte list \<Rightarrow> conn \<Rightarrow> conn \<Rightarrow> copier \<Rightarrow> copier \<Rightarrow> bool" where
  "settled there fro kp kq x y \<longleftrightarrow> tx_room kp = None \<and> tx_room kq = None
     \<and> (active x \<longrightarrow> \<not> conn_closed kq) \<and> (active y \<longrightarrow> \<not> conn_closed kp)
     \<and> (\<not> active x \<and> active y \<longrightarrow> tx kq = there) \<and> (active x \<and> \<not> active y \<longrightarrow> tx kp = fro)
     \<and> (\<not> active x \<and> \<not> active y \<longrightarrow> tx kq = there \<or> tx kp = fro)"

lemma settled_swap: "settled there fro kp kq x y \<longleftrightarrow> settled fro there kq kp y x"
  by (auto simp: settled_def)

lemma settled_own:
  assumes st: "copy_step r p q x s = (x', t)" and ne: "p \<noteq> q"
    and c: "carried there (conns s p) (conns s q) x" and inv: "settled there fro (conns s p) (conns s q) x y"
  shows "settled there fro (conns t p) (conns t q) x' y"
proof (cases x)
  case (CopyRead n)
  obtain v k where rd: "conn_read io_copy_buffer (conns s p) = (v, k)" by fastforce
  note f = conn_read_frame [OF rd]
  have q: "\<not> conn_closed (conns s q)" using inv CopyRead by (simp add: settled_def)
  show ?thesis
  proof (cases v)
    case (Inl e)
    then have t: "x' = CopyEnd n" "t = set_conn p k s" using st rd CopyRead by (auto simp: copy_step_def)
    have "tx (conns s q) = there" if "\<not> conn_closed (conns s p)"
      using c that q CopyRead f(5) [OF Inl that] by (auto simp: carried_def)
    with inv CopyRead t ne f(1-3) show ?thesis by (auto simp: settled_def)
  next
    case (Inr bs)
    then have "x' = CopyWrite bs n" "t = set_conn p k s" using st rd CopyRead by (auto simp: copy_step_def)
    with inv CopyRead ne f(1-3) show ?thesis by (auto simp: settled_def)
  qed
next
  case (CopyWrite bs n)
  then have "\<not> conn_closed (conns s q)" "tx_room (conns s q) = None" using inv by (simp_all add: settled_def)
  then have "x' = CopyRead (n + length bs)" "t = set_conn q ((conns s q)\<lparr>tx := tx (conns s q) @ bs\<rparr>) s"
    using st CopyWrite by (auto simp: copy_step_def conn_write_ok)
  with inv CopyWrite ne show ?thesis by (auto simp: settled_def)
next
  case (CopyEnd n)
  with st inv ne show ?thesis by (auto simp: copy_step_def settled_def conn_close_def)
next
  case CopyDone
  with st inv show ?thesis by (simp add: copy_step_def)
qed

text \<open>The closing of the server goes through its stages in order.\<close>

lemma closing_frame [simp]:
  "closing (goto c p s) = closing s" "closing (set_conn c k s) = closing s" "closing (set_session r x s) = closing s"
  "closing (set_relayer c y s) = closing s" "closing (refuse c m s) = closing s" "closing (close_conns cs s) = closing s"
  by (simp_all add: goto_def set_conn_def set_session_def set_relayer_def refuse_def close_conns_def)

lemma closing_copy: "copy_step r src dst x s = (x', t) \<Longrightarrow> closing t = closing s"
  by (auto simp: copy_step_def split: copier.splits prod.splits sum.splits option.splits)

lemma closing_before:
  assumes "relay_step quote s t" "closing t \<in> {CloseIdle, CloseMarked}"
  shows "closing s \<in> {CloseIdle, CloseMarked}"
  using assms
  by cases (auto simp: accept_def accept_error_def handle_read_def handle_lock_def handle_add_def handle_ack_def handle_count_def
      handle_clean_def relay_start_def copy_forward_def copy_back_def relay_finish_def relay_cleanup_def Let_def
      close_clear_def close_listener_def closing_copy
      split: option.splits sum.splits prod.splits list.splits relayer.splits copier.splits if_splits)

definition delivers :: "byte list \<Rightarrow> byte list \<Rightarrow> conn_id \<Rightarrow> conn_id \<Rightarrow> conn_id \<Rightarrow> server \<Rightarrow> bool" where
  "delivers there fro c p q s \<longleftrightarrow> forwards there fro c p q s
     \<and> (closing s \<in> {CloseIdle, CloseMarked} \<longrightarrow>
          (\<forall>x y. relayers s c = Copying p q x y \<longrightarrow> settled there fro (conns s p) (conns s q) x y))"

lemma delivers_step:
  assumes inv: "relay_inv s" and d: "delivers there fro c p q s" and st: "relay_step quote s t" and go: "relayers t c \<noteq> Ended"
  shows "delivers there fro c p q t"
proof -
  have fw: "forwards there fro c p q s" using d by (simp add: delivers_def)
  then obtain x y where sole: "sole c p q s" and c: "relayers s c = Copying p q x y"
    and xy: "carried there (conns s p) (conns s q) x" "carried fro (conns s q) (conns s p) y"
    by (auto simp: forwards_def)
  note ne = peers_distinct [OF inv c]
  have fw': "forwards there fro c p q t" using forwards_step [OF inv fw st] go by blast
  have "settled there fro (conns t p) (conns t q) x' y'"
    if ct: "closing t \<in> {CloseIdle, CloseMarked}" "relayers t c = Copying p q x' y'" for x' y'
  proof -
    have old: "settled there fro (conns s p) (conns s q) x y"
      using d c closing_before [OF st ct(1)] unfolding delivers_def by blast
    consider "t = copy_forward c s" | "t = copy_back c s" | "t = relay_finish c s"
      | "\<forall>e \<in> {c, p, q}. relayers t e = relayers s e \<and> conns t e = conns s e"
      using step_of_others [OF inv c sole st] ct(1) by auto
    then show ?thesis
    proof cases
      case 1
      obtain z u where u: "copy_step (session_ref (handlers s c)) p q x s = (z, u)" by fastforce
      then have "t = set_relayer c (Copying p q z y) u" using 1 c by (simp add: copy_forward_def)
      then show ?thesis using settled_own [OF u ne xy(1) old] ct(2) by auto
    next
      case 2
      obtain z u where u: "copy_step (session_ref (handlers s c)) q p y s = (z, u)" by fastforce
      then have t: "t = set_relayer c (Copying p q x z) u" using 2 c by (simp add: copy_back_def)
      have "settled fro there (conns u q) (conns u p) z x"
        by (rule settled_own [OF u ne [symmetric] xy(2) settled_swap [THEN iffD1, OF old]])
      then show ?thesis using t ct(2) settled_swap [THEN iffD1] by auto
    next
      case 3
      then show ?thesis using c ct(2) old
        by (auto simp: relay_finish_def Let_def split: copier.splits prod.splits)
    next
      case 4
      then show ?thesis using c ct(2) old by auto
    qed
  qed
  with fw' show ?thesis by (simp add: delivers_def)
qed

lemma delivers_run:
  assumes "reach relay_init (relay_step quote) s" and "(relay_step quote)\<^sup>*\<^sup>* s t" and "delivers there fro c p q s"
  shows "delivers there fro c p q t \<or> relayers t c \<in> {Ended, Gone}"
  by (rule relay.run_stable [OF assms(1,2)]) (use assms(3) delivers_step ended_step in blast)+

text \<open>
  C12: the relaying goroutine ends, and the direction that ends first has delivered everything. The
  goroutine of a session that it has to itself starts on two open connections that take their
  writes, and the server runs in any way. At every moment until \<open>relaySession\<close> returns, each step of the
  server leaves the goroutine and its budget alone or uses the budget up, and some step does use it up; the budget
  at the start is two steps per byte to be relayed and five more. And unless
  the server itself is being closed: once one direction has ended and the other one still
  copies, everything its sender had sent has been written to its receiver; and when both have
  ended, this holds of one of them. (Of the other one, which may find its source closed, a prefix has been written.)
\<close>

theorem relay_forwards_all:
  assumes "reach relay_init (relay_step quote) s" and "relayers s c = Copying p q (CopyRead 0) (CopyRead 0)"
    and "sole c p q s" and "\<not> conn_closed (conns s p)" and "\<not> conn_closed (conns s q)"
    and "tx_room (conns s p) = None" and "tx_room (conns s q) = None"
    and "(relay_step quote)\<^sup>*\<^sup>* s t" and "relayers t c = Copying p q x y"
  shows "relay_work c s = 2 * (length (concat (rx (conns s p))) + length (concat (rx (conns s q)))) + 5
    \<and> (\<forall>u. relay_step quote t u \<longrightarrow>
          relayers u c = relayers t c \<and> relay_work c u = relay_work c t \<or> relay_work c u < relay_work c t)
    \<and> (\<exists>u. relay_step quote t u \<and> relay_work c u < relay_work c t)
    \<and> (closing t \<in> {CloseIdle, CloseMarked} \<longrightarrow>
         (\<not> active x \<and> active y \<longrightarrow> tx (conns t q) = tx (conns s q) @ concat (rx (conns s p)))
       \<and> (active x \<and> \<not> active y \<longrightarrow> tx (conns t p) = tx (conns s p) @ concat (rx (conns s q)))
       \<and> (\<not> active x \<and> \<not> active y \<longrightarrow> tx (conns t q) = tx (conns s q) @ concat (rx (conns s p))
            \<or> tx (conns t p) = tx (conns s p) @ concat (rx (conns s q))))"
proof -
  let ?there = "tx (conns s q) @ concat (rx (conns s p))" and ?fro = "tx (conns s p) @ concat (rx (conns s q))"
  have "delivers ?there ?fro c p q s"
    using assms(2-7) by (auto simp: delivers_def forwards_def carried_def settled_def)
  from delivers_run [OF assms(1,8) this] assms(9)
  have t: "sole c p q t" "closing t \<in> {CloseIdle, CloseMarked} \<longrightarrow> settled ?there ?fro (conns t p) (conns t q) x y"
    by (auto simp: delivers_def forwards_def)
  have inv: "relay_inv t" by (rule relay.run_inv [OF assms(1,8)])
  have "relay_work c s = 2 * (length (concat (rx (conns s p))) + length (concat (rx (conns s q)))) + 5"
    using assms(2) by (simp add: relay_work_def)
  then show ?thesis
    using relay_step_work [OF inv assms(9) t(1)] relay_proceeds [OF inv assms(9)] t(2) by (auto simp: settled_def)
qed

text \<open>The session of the example: the first direction has ended, the second one has not begun.\<close>

lemma copy_forward_eval:
  "relayers s c = Copying p q x y \<Longrightarrow> copy_step (session_ref (handlers s c)) p q x s = (x', t) \<Longrightarrow>
     copy_forward c s = set_relayer c (Copying p q x' y) t"
  by (simp add: copy_forward_def)

lemma relaying_ended:
  "relayers ((copy_forward 2 ^^ 5) relaying) 2 = Copying 0 2 (CopyEnd 3) (CopyRead 0)"
  "closing ((copy_forward 2 ^^ 5) relaying) = closing relaying"
proof -
  let ?f = "copy_forward 2" and ?k = "conns relaying 0" and ?l = "conns relaying 2"
  define w1 where "w1 = set_relayer 2 (Copying 0 2 (CopyWrite [10, 11] 0) (CopyRead 0)) (set_conn 0 (?k\<lparr>rx := [[], [12]]\<rparr>) relaying)"
  define w2 where "w2 = set_relayer 2 (Copying 0 2 (CopyRead 2) (CopyRead 0)) (set_conn 2 (?l\<lparr>tx := tx ?l @ [10, 11]\<rparr>) w1)"
  define w3 where "w3 = set_relayer 2 (Copying 0 2 (CopyWrite [12] 2) (CopyRead 0)) (set_conn 0 (?k\<lparr>rx := [[]]\<rparr>) w2)"
  define w4 where "w4 = set_relayer 2 (Copying 0 2 (CopyRead 3) (CopyRead 0)) (set_conn 2 (?l\<lparr>tx := tx ?l @ [10, 11] @ [12]\<rparr>) w3)"
  define w5 where "w5 = set_relayer 2 (Copying 0 2 (CopyEnd 3) (CopyRead 0)) (set_conn 0 (?k\<lparr>rx := []\<rparr>) w4)"
  have kl: "?k = (idle_conn [[], [10, 11], [12]])\<lparr>tx := ack_bytes None\<rparr>" "?l = (idle_conn [[], [20]])\<lparr>tx := ack_bytes None\<rparr>"
    "relayers relaying 2 = Copying 0 2 (CopyRead 0) (CopyRead 0)"
    by (simp_all add: relaying_eq paired_facts)
  have "?f relaying = w1"
    unfolding w1_def by (rule copy_forward_eval [OF kl(3)]) (simp add: copy_step_read kl io_copy_buffer_def)
  moreover have "?f w1 = w2"
    unfolding w2_def by (rule copy_forward_eval [where x = "CopyWrite [10, 11] 0"]) (simp_all add: copy_step_write kl w1_def)
  moreover have "?f w2 = w3"
    unfolding w3_def by (rule copy_forward_eval [where x = "CopyRead 2"]) (simp_all add: copy_step_read kl w2_def w1_def io_copy_buffer_def)
  moreover have "?f w3 = w4"
    unfolding w4_def by (rule copy_forward_eval [where x = "CopyWrite [12] 2"]) (simp_all add: copy_step_write kl w3_def w2_def w1_def)
  moreover have "?f w4 = w5"
    unfolding w5_def by (rule copy_forward_eval [where x = "CopyRead 3"]) (simp_all add: copy_step_read_end kl w4_def w3_def w2_def w1_def)
  ultimately have eq: "(?f ^^ 5) relaying = w5" by (simp add: eval_nat_numeral)
  show "relayers ((?f ^^ 5) relaying) 2 = Copying 0 2 (CopyEnd 3) (CopyRead 0)" unfolding eq by (simp add: w5_def)
  show "closing ((?f ^^ 5) relaying) = closing relaying" unfolding eq by (simp add: w5_def w4_def w3_def w2_def w1_def)
qed

lemma closing_handler [simp]: "closing (handler_segment quote now c s) = closing s"
  by (auto simp: handler_segment_def handle_read_def handle_lock_def handle_add_def handle_ack_def handle_count_def handle_clean_def
      Let_def split: pc.split option.split sum.split prod.split)

lemma closing_handlers [simp]: "closing ((handler_segment quote now c ^^ n) s) = closing s"
  by (induction n) simp_all

lemma relaying_closing: "closing relaying = CloseIdle"
  by (simp add: relaying_eq paired_def waiting_def handleConnection_def accept_def demo_def)

lemma copy_forward_run: "(relay_step quote)\<^sup>*\<^sup>* s ((copy_forward c ^^ m) s)"
proof (induction m)
  case (Suc m)
  let ?u = "(copy_forward c ^^ m) s"
  have "(relay_step quote)\<^sup>*\<^sup>* ?u (copy_forward c ?u)"
    using relay_step.Forward [of ?u c _ _ _ _ quote]
    by (cases "relayers ?u c") (auto simp: copy_forward_def)
  with Suc show ?case by (simp add: rtranclp_trans)
qed simp

theorem relay_forwards_all_witness:
  "tx (conns ((copy_forward 2 ^^ 5) relaying) 2) = ack_bytes None @ [10, 11, 12]"
proof -
  have "sole 2 0 2 relaying" by (auto simp: sole_def relaying_eq paired_facts)
  moreover have "closing relaying \<in> {CloseIdle, CloseMarked}" by (simp add: relaying_closing)
  ultimately show ?thesis
    using relay_forwards_all [OF reach_relaying _ _ _ _ _ _ copy_forward_run relaying_ended(1)]
    by (simp add: relaying_ended(2)) (simp add: relaying_eq paired_facts)
qed

end
