(* ===== verification/Stun.thy ===== *)
theory Stun
  imports Prelude
begin

text \<open>
  \<open>internal/stun/server.go\<close>: the STUN server. \<open>handleMessage\<close> and \<open>buildBindingResponse\<close>
  are functions of the datagram and of the sender's address; the serving goroutine and
  \<open>Close\<close> are the steps of a transition system whose state records the datagrams sent. A
  \<open>net.IP\<close> is a byte slice of any length; indexing past its end is a panic of the server.
  A reader of responses, after RFC 5389, is the specification they are checked against.
\<close>

section \<open>Constants and addresses\<close>

definition StunBindingRequest :: "16 word" where "StunBindingRequest = 0x0001"
definition StunBindingResponse :: "16 word" where "StunBindingResponse = 0x0101"
definition AttrMappedAddress :: "16 word" where "AttrMappedAddress = 0x0001"
definition AttrXORMappedAddress :: "16 word" where "AttrXORMappedAddress = 0x0020"
definition StunMagicCookie :: "32 word" where "StunMagicCookie = 0x2112A442"

lemmas stun_consts = StunBindingRequest_def StunBindingResponse_def AttrXORMappedAddress_def StunMagicCookie_def

record udp_addr =
  IP :: "byte list"
  Port :: int

record stun_config =
  stun_Addr :: string

definition DefaultSTUNConfig :: stun_config where
  "DefaultSTUNConfig = \<lparr>stun_Addr = '':10978''\<rparr>"

datatype stun_error = StunError string | StunWrite string  \<comment> \<open>\<open>stunError\<close>; the error of \<open>WriteToUDP\<close>\<close>

fun stun_error_text :: "stun_error \<Rightarrow> string" where
  "stun_error_text (StunError m) = ''stun: '' @ m"
| "stun_error_text (StunWrite m) = m"

text \<open>\<open>net.IP.To4\<close> and \<open>To16\<close>; \<open>[]\<close> is nil.\<close>

definition v4InV6Prefix :: "byte list" where
  "v4InV6Prefix = replicate 10 0 @ [0xff, 0xff]"

definition To4 :: "byte list \<Rightarrow> byte list" where
  "To4 ip = (if length ip = 4 then ip
     else if length ip = 16 \<and> take 12 ip = v4InV6Prefix then drop 12 ip else [])"

definition To16 :: "byte list \<Rightarrow> byte list" where
  "To16 ip = (if length ip = 4 then v4InV6Prefix @ ip else if length ip = 16 then ip else [])"

section \<open>Requests and responses\<close>

definition cookieBytes :: "byte list" where
  "cookieBytes = put_uint32 StunMagicCookie"

text \<open>The key an address is xored with: the cookie, then the transaction id.\<close>

definition xor_bytes :: "byte list \<Rightarrow> byte list \<Rightarrow> byte list" where
  "xor_bytes xs ys = map2 (XOR) xs ys"

text \<open>\<open>None\<close>: the loop indexes the address past its end.\<close>

definition xor_ip :: "byte list \<Rightarrow> byte list \<Rightarrow> (byte \<times> byte list) option" where
  "xor_ip transactionID ip =
     (if length ip = 4 then Some (0x01, xor_bytes ip cookieBytes)
      else if length ip < 16 then None
      else Some (0x02, xor_bytes (take 16 ip) (cookieBytes @ transactionID)))"

definition buildBindingResponse :: "byte list \<Rightarrow> udp_addr \<Rightarrow> byte list option" where
  "buildBindingResponse transactionID mappedAddr =
     (let ip = (if To4 (IP mappedAddr) = [] then To16 (IP mappedAddr) else To4 (IP mappedAddr));
          port = word_of_int (Port mappedAddr) :: 16 word;
          xorPort = port XOR ucast (drop_bit 16 StunMagicCookie)
      in case xor_ip transactionID ip of
           None \<Rightarrow> None
         | Some (family, xorIP) \<Rightarrow>
             let attrValue = [0x00, family] @ put_uint16 xorPort @ xorIP;
                 attr = put_uint16 AttrXORMappedAddress @ put_uint16 (word_of_nat (length attrValue)) @ attrValue
             in Some (put_uint16 StunBindingResponse @ put_uint16 (word_of_nat (length attr))
                  @ put_uint32 StunMagicCookie @ transactionID @ attr))"

text \<open>\<open>%04x\<close> of a 16-bit number.\<close>

definition hex_digit :: "nat \<Rightarrow> char" where
  "hex_digit n = (if n < 10 then char_of (48 + n) else char_of (87 + n))"

definition hex4 :: "16 word \<Rightarrow> string" where
  "hex4 w = map (\<lambda>k. hex_digit (unat w div 16 ^ k mod 16)) [3, 2, 1, 0]"

text \<open>
  What \<open>handleMessage\<close> comes to: a panic, an error, or a response to be written to the
  sender.
\<close>

datatype handled = Panic | Refused stun_error | Respond "byte list"

definition handleMessage :: "byte list \<Rightarrow> udp_addr \<Rightarrow> handled" where
  "handleMessage data remoteAddr =
     (if length data < 20 then Refused (StunError ''message too short'')
      else let msgType = get_uint16 (take 2 data);
               msgLength = get_uint16 (take 2 (drop 2 data));
               magicCookie = get_uint32 (take 4 (drop 4 data))
           in if magicCookie \<noteq> StunMagicCookie then Refused (StunError ''invalid magic cookie'')
              else if msgType \<noteq> StunBindingRequest
                then Refused (StunError (''unsupported message type: 0x'' @ hex4 msgType))
              else if length data < 20 + unat msgLength then Refused (StunError ''message truncated'')
              else case buildBindingResponse (take 12 (drop 8 data)) remoteAddr of
                     None \<Rightarrow> Panic
                   | Some response \<Rightarrow> Respond response)"

section \<open>The server\<close>

datatype serving_at =
    AtSelect
  | AtRead
  | AtHandle "byte list" udp_addr   \<comment> \<open>a datagram has been received and not yet been handled\<close>
  | Returned
  | Crashed

datatype stun_closer = CloseIdle | CloseMarked | CloseReturned

record stun_server =
  scfg :: stun_config
  sdone :: bool                     \<comment> \<open>the channel \<open>done\<close> is closed\<close>
  sconn_open :: bool
  sent :: "(byte list \<times> udp_addr) list"
  loop :: serving_at
  sclosing :: stun_closer           \<comment> \<open>how far \<open>Close\<close> has got\<close>

definition start_stun :: "stun_config \<Rightarrow> stun_server" where
  "start_stun c = \<lparr>scfg = c, sdone = False, sconn_open = True, sent = [], loop = AtSelect, sclosing = CloseIdle\<rparr>"

text \<open>What \<open>ReadFromUDP\<close> returns: a datagram, cut to the buffer, from an address; a timeout; another error.\<close>

datatype udp_read = Datagram "byte list" udp_addr | ReadTimeout | ReadFailure

definition buf_size :: nat where "buf_size = 576"

definition stun_isClosed :: "stun_server \<Rightarrow> bool" where
  "stun_isClosed s = sdone s"

definition serve_select :: "stun_server \<Rightarrow> stun_server" where
  "serve_select s = s\<lparr>loop := (if stun_isClosed s then Returned else AtRead)\<rparr>"

definition serve_read :: "udp_read \<Rightarrow> stun_server \<Rightarrow> stun_server" where
  "serve_read ev s =
     (case ev of
        ReadTimeout \<Rightarrow> s\<lparr>loop := AtSelect\<rparr>
      | ReadFailure \<Rightarrow> if stun_isClosed s then s\<lparr>loop := Returned\<rparr> else s\<lparr>loop := AtSelect\<rparr>
      | Datagram bs a \<Rightarrow> s\<lparr>loop := AtHandle (take buf_size bs) a\<rparr>)"

text \<open>
  \<open>handleMessage\<close>, and the write of its response: \<open>write_ok\<close> is whether the network takes it;
  a closed socket never does. Whatever the error, the loop goes on.
\<close>

definition serve_handle :: "bool \<Rightarrow> stun_server \<Rightarrow> stun_server" where
  "serve_handle write_ok s =
     (case loop s of
        AtHandle bs a \<Rightarrow>
          (case handleMessage bs a of
             Panic \<Rightarrow> s\<lparr>loop := Crashed\<rparr>
           | Refused e \<Rightarrow> s\<lparr>loop := AtSelect\<rparr>
           | Respond r \<Rightarrow>
               if write_ok \<and> sconn_open s then s\<lparr>sent := sent s @ [(r, a)], loop := AtSelect\<rparr>
               else s\<lparr>loop := AtSelect\<rparr>)
      | _ \<Rightarrow> s)"

text \<open>\<open>Close\<close>, which takes no lock: first the channel is closed, then the socket.\<close>

definition stun_Close_done :: "stun_server \<Rightarrow> stun_server" where
  "stun_Close_done s = s\<lparr>sdone := True, sclosing := CloseMarked\<rparr>"

definition stun_Close_conn :: "stun_server \<Rightarrow> stun_server" where
  "stun_Close_conn s = s\<lparr>sconn_open := False, sclosing := CloseReturned\<rparr>"

text \<open>A read meets a datagram or a timeout only while the socket is open.\<close>

inductive stun_step :: "stun_server \<Rightarrow> stun_server \<Rightarrow> bool" where
  Select: "loop s = AtSelect \<Longrightarrow> stun_step s (serve_select s)"
| Read: "loop s = AtRead \<Longrightarrow> sconn_open s \<or> ev = ReadFailure \<Longrightarrow> stun_step s (serve_read ev s)"
| Handle: "loop s = AtHandle bs a \<Longrightarrow> stun_step s (serve_handle write_ok s)"
| CloseDone: "sclosing s = CloseIdle \<Longrightarrow> stun_step s (stun_Close_done s)"
| CloseConn: "sclosing s = CloseMarked \<Longrightarrow> stun_step s (stun_Close_conn s)"

inductive_cases stun_stepE: "stun_step s t"

definition stun_init :: "stun_server \<Rightarrow> bool" where
  "stun_init s \<longleftrightarrow> (\<exists>c. s = start_stun c)"

section \<open>Reading a response (RFC 5389)\<close>

text \<open>
  A client checks the header, the single XOR-MAPPED-ADDRESS attribute with its length, and
  undoes the xors: transaction id, address and port.
\<close>

definition read_response :: "byte list \<Rightarrow> (byte list \<times> byte list \<times> nat) option" where
  "read_response r =
     (let txid = take 12 (drop 8 r); key = put_uint32 StunMagicCookie @ txid;
          alen = unat (get_uint16 (take 2 (drop 22 r))); x = drop 28 r
      in if 28 \<le> length r \<and> get_uint16 (take 2 r) = StunBindingResponse
           \<and> length r = 20 + unat (get_uint16 (take 2 (drop 2 r)))
           \<and> get_uint32 (take 4 (drop 4 r)) = StunMagicCookie
           \<and> get_uint16 (take 2 (drop 20 r)) = AttrXORMappedAddress \<and> length r = 24 + alen
           \<and> (r ! 25 = 0x01 \<and> length x = 4 \<or> r ! 25 = 0x02 \<and> length x = 16)
         then Some (txid, xor_bytes x key, unat (get_uint16 (take 2 (drop 26 r)) XOR ucast (drop_bit 16 StunMagicCookie)))
         else None)"

text \<open>A Binding Request: any attributes after the header; more bytes may follow them.\<close>

definition is_request :: "byte list \<Rightarrow> bool" where
  "is_request data \<longleftrightarrow> (\<exists>len txid rest. data = put_uint16 StunBindingRequest @ put_uint16 len
     @ put_uint32 StunMagicCookie @ txid @ rest \<and> length txid = 12 \<and> unat len \<le> length rest)"

text \<open>The address as the response carries it: 4 bytes for IPv4, also when mapped into IPv6.\<close>

definition plain_ip :: "byte list \<Rightarrow> byte list" where
  "plain_ip ip = (if To4 ip = [] then ip else To4 ip)"

lemma length_xor_bytes [simp]: "length (xor_bytes xs ys) = min (length xs) (length ys)"
  by (simp add: xor_bytes_def)

lemma xor_bytes_twice: "length xs \<le> length ys \<Longrightarrow> xor_bytes (xor_bytes xs ys) (ys @ zs) = xs"
proof (induction xs arbitrary: ys)
  case (Cons x xs)
  then show ?case by (cases ys) (auto simp: xor_bytes_def xor.assoc)
qed (simp add: xor_bytes_def)

lemma length_cookie [simp]: "length cookieBytes = 4"
  by (simp add: cookieBytes_def)

lemma length_To4: "length (To4 ip) = 4 \<or> To4 ip = []"
  by (auto simp: To4_def)

lemma length_To16: "length (To16 ip) = 16 \<or> To16 ip = []"
  by (auto simp: To16_def v4InV6Prefix_def)

text \<open>The response, by the kind of address.\<close>

definition response_bytes :: "byte list \<Rightarrow> byte \<Rightarrow> byte list \<Rightarrow> 16 word \<Rightarrow> byte list" where
  "response_bytes txid family x port =
     put_uint16 StunBindingResponse @ put_uint16 (word_of_nat (8 + length x)) @ put_uint32 StunMagicCookie @ txid
     @ put_uint16 AttrXORMappedAddress @ put_uint16 (word_of_nat (4 + length x)) @ [0, family]
     @ put_uint16 (port XOR ucast (drop_bit 16 StunMagicCookie)) @ x"

lemma plain_ip_cases:
  assumes "length ip \<in> {4, 16}"
  obtains "length (plain_ip ip) = 4" "To4 ip = plain_ip ip" "To4 ip \<noteq> []"
    | "length (plain_ip ip) = 16" "To4 ip = []" "To16 ip = plain_ip ip"
proof (cases "To4 ip = []")
  case True
  then have "length ip = 16" using assms by (auto simp: To4_def)
  with True show thesis by (intro that(2)) (simp_all add: plain_ip_def To16_def)
next
  case False
  with length_To4 [of ip] show thesis by (intro that(1)) (simp_all add: plain_ip_def)
qed

lemma build_v4:
  assumes "To4 (IP a) \<noteq> []"
  shows "buildBindingResponse txid a
    = Some (response_bytes txid 1 (xor_bytes (To4 (IP a)) cookieBytes) (word_of_int (Port a)))"
  using assms length_To4 [of "IP a"]
  by (simp add: buildBindingResponse_def xor_ip_def response_bytes_def Let_def)

lemma build_v6:
  assumes "To4 (IP a) = []" and "length (To16 (IP a)) = 16" and "length txid = 12"
  shows "buildBindingResponse txid a
    = Some (response_bytes txid 2 (xor_bytes (To16 (IP a)) (cookieBytes @ txid)) (word_of_int (Port a)))"
  using assms by (simp add: buildBindingResponse_def xor_ip_def response_bytes_def Let_def)

lemma build_None: "buildBindingResponse txid a = None \<longleftrightarrow> length (IP a) \<notin> {4, 16}"
  by (auto simp: buildBindingResponse_def xor_ip_def Let_def To4_def To16_def v4InV6Prefix_def split: option.split)

lemma read_response_bytes:
  assumes "length txid = 12" and "family = 1 \<and> length x = 4 \<or> family = 2 \<and> length x = 16"
  shows "read_response (response_bytes txid family x port)
    = Some (txid, xor_bytes x (put_uint32 StunMagicCookie @ txid), unat port)"
proof -
  let ?r = "response_bytes txid family x port"
  let ?hd = "put_uint16 StunBindingResponse @ put_uint16 (word_of_nat (8 + length x)) @ put_uint32 StunMagicCookie @ txid"
  let ?p = "port XOR ucast (drop_bit 16 StunMagicCookie)"
  have r: "?r = ?hd @ put_uint16 AttrXORMappedAddress @ put_uint16 (word_of_nat (4 + length x)) @ [0, family] @ put_uint16 ?p @ x"
    by (simp add: response_bytes_def)
  have hd: "length ?hd = 20" using assms(1) by simp
  have d: "drop 20 ?r = put_uint16 AttrXORMappedAddress @ put_uint16 (word_of_nat (4 + length x)) @ [0, family] @ put_uint16 ?p @ x"
    unfolding r using hd by simp
  have d22: "drop 22 ?r = put_uint16 (word_of_nat (4 + length x)) @ [0, family] @ put_uint16 ?p @ x"
    and d26: "drop 26 ?r = put_uint16 ?p @ x" and d28: "drop 28 ?r = x"
    using arg_cong [OF d, of "drop 2"] arg_cong [OF d, of "drop 6"] arg_cong [OF d, of "drop 8"] by simp_all
  have n: "?r ! 25 = family"
    using nth_drop [of 20 ?r 5] d hd r by (simp add: nth_append)
  have len: "length ?r = 28 + length x" by (simp add: r assms(1))
  have u: "unat (word_of_nat (8 + length x) :: 16 word) = 8 + length x"
    "unat (word_of_nat (4 + length x) :: 16 word) = 4 + length x"
    using assms(2) by auto
  have "take 2 ?r = put_uint16 StunBindingResponse" "take 2 (drop 2 ?r) = put_uint16 (word_of_nat (8 + length x))"
    "take 4 (drop 4 ?r) = put_uint32 StunMagicCookie" "take 12 (drop 8 ?r) = txid"
    using assms(1) by (simp_all add: response_bytes_def)
  then show ?thesis
    using assms n d d22 d26 d28 len u by (auto simp: read_response_def Let_def xor.assoc)
qed

text \<open>The datagrams that are requests, as the checks of \<open>handleMessage\<close> see them.\<close>

lemma is_request_iff:
  "is_request data \<longleftrightarrow> 20 \<le> length data \<and> get_uint32 (take 4 (drop 4 data)) = StunMagicCookie
    \<and> get_uint16 (take 2 data) = StunBindingRequest
    \<and> 20 + unat (get_uint16 (take 2 (drop 2 data))) \<le> length data" (is "_ = ?c")
proof
  assume "is_request data"
  then show ?c by (auto simp: is_request_def)
next
  assume c: ?c
  let ?len = "get_uint16 (take 2 (drop 2 data))"
  have "data = take 2 data @ take 2 (drop 2 data) @ take 4 (drop 4 data) @ take 12 (drop 8 data) @ drop 20 data"
    using append_take_drop_id [of 2 data] append_take_drop_id [of 2 "drop 2 data"]
      append_take_drop_id [of 4 "drop 4 data"] append_take_drop_id [of 12 "drop 8 data"] by simp
  moreover have "put_uint16 StunBindingRequest = take 2 data" "put_uint16 ?len = take 2 (drop 2 data)"
    "put_uint32 StunMagicCookie = take 4 (drop 4 data)"
    using c put_get_uint16 [of "take 2 data"] put_get_uint16 [of "take 2 (drop 2 data)"]
      put_get_uint32 [of "take 4 (drop 4 data)"] by auto
  ultimately have "data = put_uint16 StunBindingRequest @ put_uint16 ?len @ put_uint32 StunMagicCookie
      @ take 12 (drop 8 data) @ drop 20 data"
    by metis
  moreover have "length (take 12 (drop 8 data)) = 12" "unat ?len \<le> length (drop 20 data)" using c by auto
  ultimately show "is_request data" unfolding is_request_def by blast
qed

lemma handleMessage_request:
  "is_request data \<Longrightarrow> handleMessage data a =
     (case buildBindingResponse (take 12 (drop 8 data)) a of None \<Rightarrow> Panic | Some r \<Rightarrow> Respond r)"
  by (auto simp: is_request_iff handleMessage_def Let_def)

lemma handleMessage_other: "\<not> is_request data \<Longrightarrow> \<exists>e. handleMessage data a = Refused e"
  by (auto simp: is_request_iff handleMessage_def Let_def)

lemma response_length:
  "buildBindingResponse txid a = Some r \<Longrightarrow> length txid = 12 \<Longrightarrow> length r \<in> {32, 44}"
  using length_To4 [of "IP a"] length_To16 [of "IP a"]
  by (auto simp: buildBindingResponse_def xor_ip_def Let_def split: option.splits if_splits)

lemma respond_facts:
  assumes "handleMessage data a = Respond r"
  shows "length r \<in> {32, 44} \<and> length (IP a) \<in> {4, 16}"
proof -
  have req: "is_request data" using assms handleMessage_other [of data a] by fastforce
  with assms have r: "buildBindingResponse (take 12 (drop 8 data)) a = Some r"
    by (auto simp: handleMessage_request split: option.splits)
  then have "length (IP a) \<in> {4, 16}" using build_None [of "take 12 (drop 8 data)" a] by auto
  with response_length [OF r] req show ?thesis by (auto simp: is_request_iff)
qed

section \<open>Properties\<close>

text \<open>
  C10: a client learns its address. To every Binding Request, with whatever attributes,
  from a sender with an IPv4 or IPv6 address and a port of 16 bits, the server writes a
  response from which an RFC 5389 client reads back its own transaction id, the address
  the request came from (an IPv4 address also when it arrived mapped into IPv6) and the
  port.
\<close>

theorem stun_roundtrip:
  assumes "data = put_uint16 StunBindingRequest @ put_uint16 len @ put_uint32 StunMagicCookie @ txid @ rest"
    and "length txid = 12" and "unat len \<le> length rest"
    and "length (IP a) \<in> {4, 16}" and "0 \<le> Port a" and "Port a < 2 ^ 16"
  shows "\<exists>r. handleMessage data a = Respond r \<and> read_response r = Some (txid, plain_ip (IP a), nat (Port a))"
proof -
  have "is_request data" using assms(1-3) unfolding is_request_def by blast
  moreover have tx: "take 12 (drop 8 data) = txid" using assms(1,2) by simp
  ultimately have h: "handleMessage data a = (case buildBindingResponse txid a of None \<Rightarrow> Panic | Some r \<Rightarrow> Respond r)"
    by (simp add: handleMessage_request)
  have p: "unat (word_of_int (Port a) :: 16 word) = nat (Port a)" using assms(5,6)
    by (simp add: unsigned_of_int take_bit_int_eq_self)
  from assms(4) show ?thesis
  proof (cases rule: plain_ip_cases)
    case 1
    have "xor_bytes (xor_bytes (plain_ip (IP a)) cookieBytes) (cookieBytes @ txid) = plain_ip (IP a)"
      by (rule xor_bytes_twice) (simp add: 1)
    with 1 h p assms(2) show ?thesis by (simp add: build_v4 read_response_bytes flip: cookieBytes_def)
  next
    case 2
    have "xor_bytes (xor_bytes (plain_ip (IP a)) (cookieBytes @ txid)) ((cookieBytes @ txid) @ []) = plain_ip (IP a)"
      by (rule xor_bytes_twice) (simp add: 2 assms(2))
    with 2 h p assms(2) show ?thesis by (simp add: build_v6 read_response_bytes flip: cookieBytes_def)
  qed
qed

text \<open>
  C27: the server answers nothing else. It responds exactly to Binding Requests whose
  sender has a 4- or 16-byte address, with 32 or 44 bytes, and at most 24 bytes more than
  it received; every other datagram is refused with an error. (A request with an address
  of another length, which \<open>net\<close> never reports, would make it panic.)
\<close>

theorem handleMessage_outcome:
  "case handleMessage data a of
     Respond r \<Rightarrow> is_request data \<and> length (IP a) \<in> {4, 16} \<and> length r \<in> {32, 44} \<and> length r \<le> length data + 24
   | Refused e \<Rightarrow> \<not> is_request data
   | Panic \<Rightarrow> is_request data \<and> length (IP a) \<notin> {4, 16}"
proof (cases "is_request data")
  case True
  then have l: "20 \<le> length data" by (simp add: is_request_iff)
  show ?thesis
  proof (cases "handleMessage data a")
    case Panic
    then have "length (IP a) \<notin> {4, 16}"
      using True build_None [of "take 12 (drop 8 data)" a] by (auto simp: handleMessage_request split: option.splits)
    with Panic True show ?thesis by simp
  next
    case (Refused e)
    with True show ?thesis by (auto simp: handleMessage_request split: option.splits)
  next
    case (Respond r)
    with True l respond_facts [OF Respond] show ?thesis by auto
  qed
next
  case False
  with handleMessage_other [OF False, of a] show ?thesis by auto
qed

text \<open>The serving goroutine.\<close>

definition stun_inv :: "stun_server \<Rightarrow> bool" where
  "stun_inv s \<longleftrightarrow> (sdone s \<longleftrightarrow> sclosing s \<noteq> CloseIdle) \<and> (sconn_open s \<longleftrightarrow> sclosing s \<noteq> CloseReturned)
     \<and> (\<forall>(r, a) \<in> set (sent s). length r \<in> {32, 44} \<and> length (IP a) \<in> {4, 16})"

lemma serve_handle_inv: "stun_inv s \<Longrightarrow> stun_inv (serve_handle ok s)"
  by (auto simp: stun_inv_def serve_handle_def split: serving_at.split handled.splits dest: respond_facts)

lemma serve_handle_frame:
  "sdone (serve_handle ok s) = sdone s" "sconn_open (serve_handle ok s) = sconn_open s" "sclosing (serve_handle ok s) = sclosing s"
  "\<not> sconn_open s \<Longrightarrow> sent (serve_handle ok s) = sent s" "length (sent (serve_handle ok s)) \<le> Suc (length (sent s))"
  "loop s = AtHandle bs a \<Longrightarrow> loop (serve_handle ok s) \<in> {AtSelect, Crashed}"
  by (auto simp: serve_handle_def split: serving_at.split handled.splits)

interpretation stun: transition_system stun_init stun_step stun_inv
proof
  show "stun_init s \<Longrightarrow> stun_inv s" for s
    by (auto simp: stun_init_def stun_inv_def start_stun_def)
  show "stun_inv s \<Longrightarrow> stun_step s t \<Longrightarrow> stun_inv t" for s t
    by (erule stun_stepE)
      (auto simp: serve_handle_inv, auto simp: stun_inv_def serve_select_def serve_read_def stun_Close_done_def stun_Close_conn_def
        split: udp_read.splits)
qed

text \<open>
  What is left of the loop once \<open>done\<close> is closed: the number of its steps, and whether a response
  may still come of the datagram that was being waited for or handled.
\<close>

fun loop_left :: "serving_at \<Rightarrow> nat" where
  "loop_left AtRead = 3" | "loop_left (AtHandle _ _) = 2" | "loop_left AtSelect = 1"
| "loop_left Returned = 0" | "loop_left Crashed = 0"

definition response_left :: "stun_server \<Rightarrow> nat" where
  "response_left s = (if sconn_open s \<and> 2 \<le> loop_left (loop s) then 1 else 0)"

definition closing_ok :: "stun_server \<Rightarrow> stun_server \<Rightarrow> bool" where
  "closing_ok s t \<longleftrightarrow> sdone t \<and> (\<not> sconn_open s \<longrightarrow> \<not> sconn_open t \<and> sent t = sent s)
     \<and> length (sent t) + response_left t \<le> length (sent s) + response_left s
     \<and> ((loop t = loop s \<and> sconn_open s \<and> \<not> sconn_open t) \<or> loop_left (loop t) < loop_left (loop s))"

lemma closing_step:
  assumes "stun_inv s" "sdone s" "stun_step s t"
  shows "closing_ok s t"
  using assms(3)
proof cases
  case (Handle bs a ok)
  then show ?thesis
    using assms(2) serve_handle_frame(1-5) [where s = s and ok = ok] serve_handle_frame(6) [where s = s and ok = ok and bs = bs and a = a]
    by (cases "sconn_open s") (auto simp: closing_ok_def response_left_def)
next
  case (Read ev)
  then show ?thesis using assms(2) by (cases ev) (auto simp: closing_ok_def serve_read_def response_left_def stun_isClosed_def)
qed (use assms in \<open>auto simp: closing_ok_def stun_inv_def serve_select_def stun_isClosed_def response_left_def stun_Close_conn_def\<close>)

lemmas closing_stepD = closing_step [unfolded closing_ok_def]

lemma loop_progress:
  assumes "sdone s" "loop s \<notin> {Returned, Crashed}"
  shows "\<exists>t. stun_step s t \<and> loop_left (loop t) < loop_left (loop s)"
proof (cases "loop s")
  case AtSelect
  then show ?thesis using assms stun_step.Select [of s] by (auto simp: serve_select_def stun_isClosed_def)
next
  case AtRead
  then show ?thesis using assms stun_step.Read [of s ReadFailure] by (auto simp: serve_read_def stun_isClosed_def)
next
  case (AtHandle bs a)
  then show ?thesis using stun_step.Handle [OF AtHandle, of True] serve_handle_frame(6) [OF AtHandle, where ok = True] by auto
qed (use assms in auto)

text \<open>
  C28: closing stops the server. In every reachable state every datagram sent is a response of
  32 or 44 bytes. Once \<open>Close\<close> has closed the channel, in every continuation at most one more
  datagram is sent (the loop may have been waiting for one, or handling it); once it has closed the
  socket, none is. And the serving goroutine ends: each of its steps brings it nearer to its return (or its
  crash), of which there are at most three, and it always has a next one.
\<close>

theorem stun_close_stops:
  assumes "reach stun_init stun_step s" and "stun_step\<^sup>*\<^sup>* s t"
  shows "(\<forall>(r, a) \<in> set (sent s). length r \<in> {32, 44} \<and> length (IP a) \<in> {4, 16})
    \<and> (sdone s \<longrightarrow> sdone t \<and> length (sent t) \<le> Suc (length (sent s)))
    \<and> (sclosing s = CloseReturned \<longrightarrow> sent t = sent s)
    \<and> (sdone s \<longrightarrow> loop_left (loop s) \<le> 3
        \<and> (\<forall>u. stun_step s u \<longrightarrow> (loop u = loop s \<and> sconn_open s \<and> \<not> sconn_open u) \<or> loop_left (loop u) < loop_left (loop s))
        \<and> (loop s \<notin> {Returned, Crashed} \<longrightarrow> (\<exists>u. stun_step s u \<and> loop_left (loop u) < loop_left (loop s))))"
proof -
  have inv: "stun_inv s" using assms(1) by (rule stun.reach_inv)
  have "sdone t \<and> length (sent t) + response_left t \<le> length (sent s) + response_left s" if d: "sdone s"
  proof (rule stun.run_stable [OF assms])
    fix u v assume "stun_inv u" "sdone u \<and> length (sent u) + response_left u \<le> length (sent s) + response_left s" "stun_step u v"
    then show "sdone v \<and> length (sent v) + response_left v \<le> length (sent s) + response_left s"
      using closing_stepD [of u v] by linarith
  qed (use d in simp)
  moreover have "response_left s \<le> 1" by (simp add: response_left_def)
  ultimately have one: "sdone s \<longrightarrow> sdone t \<and> length (sent t) \<le> Suc (length (sent s))" by linarith
  have none: "sent t = sent s" if c: "sclosing s = CloseReturned"
  proof -
    have "sdone t \<and> \<not> sconn_open t \<and> sent t = sent s"
    proof (rule stun.run_stable [OF assms])
      fix u v assume "stun_inv u" "sdone u \<and> \<not> sconn_open u \<and> sent u = sent s" "stun_step u v"
      then show "sdone v \<and> \<not> sconn_open v \<and> sent v = sent s" using closing_stepD [of u v] by simp
    qed (use c inv in \<open>simp add: stun_inv_def\<close>)
    then show ?thesis by simp
  qed
  have left: "loop_left (loop s) \<le> 3" by (cases "loop s") auto
  show ?thesis
  proof (intro conjI impI allI)
    show "\<forall>(r, a) \<in> set (sent s). length r \<in> {32, 44} \<and> length (IP a) \<in> {4, 16}" using inv by (simp add: stun_inv_def)
  qed (use one none left closing_stepD [OF inv] loop_progress [of s] in auto)
qed

theorem stun_roundtrip_witness:
  "\<exists>r. handleMessage (put_uint16 StunBindingRequest @ put_uint16 0 @ put_uint32 StunMagicCookie @ replicate 12 7 @ [])
        \<lparr>IP = [192, 0, 2, 1], Port = 32853\<rparr> = Respond r \<and> read_response r = Some (replicate 12 7, [192, 0, 2, 1], 32853)"
  using stun_roundtrip [OF refl, of "replicate 12 7" 0 "[]" "\<lparr>IP = [192, 0, 2, 1], Port = 32853\<rparr>"]
  by (simp add: plain_ip_def To4_def)

theorem stun_close_stops_witness:
  "sent (serve_handle True (stun_Close_conn (stun_Close_done (serve_read (Datagram (replicate 4 0) \<lparr>IP = [192, 0, 2, 1], Port = 9\<rparr>)
     (serve_select (start_stun DefaultSTUNConfig)))))) = []"
proof -
  let ?a = "\<lparr>IP = [192, 0, 2, 1], Port = 9\<rparr>"
  let ?s1 = "serve_select (start_stun DefaultSTUNConfig)"
  let ?s2 = "serve_read (Datagram (replicate 4 0) ?a) ?s1"
  let ?s = "stun_Close_conn (stun_Close_done ?s2)"
  have "stun_step (start_stun DefaultSTUNConfig) ?s1" by (rule stun_step.Select) (simp add: start_stun_def)
  moreover have "stun_step ?s1 ?s2" by (rule stun_step.Read) (simp_all add: start_stun_def serve_select_def stun_isClosed_def)
  moreover have "stun_step ?s2 (stun_Close_done ?s2)"
    by (rule stun_step.CloseDone) (simp add: serve_read_def start_stun_def serve_select_def)
  moreover have "stun_step (stun_Close_done ?s2) ?s" by (rule stun_step.CloseConn) (simp add: stun_Close_done_def)
  moreover have "reach stun_init stun_step (start_stun DefaultSTUNConfig)" by (rule reach_init) (auto simp: stun_init_def)
  ultimately have "reach stun_init stun_step ?s" by (blast intro: reach_step)
  moreover have "stun_step\<^sup>*\<^sup>* ?s (serve_handle True ?s)"
    by (rule r_into_rtranclp, rule stun_step.Handle [where bs = "take buf_size (replicate 4 0)" and a = ?a])
      (simp add: serve_read_def stun_Close_conn_def stun_Close_done_def)
  ultimately have "sent (serve_handle True ?s) = sent ?s"
    using stun_close_stops [of ?s "serve_handle True ?s"] by (simp add: stun_Close_conn_def)
  also have "\<dots> = []" by (simp add: serve_read_def stun_Close_conn_def stun_Close_done_def serve_select_def start_stun_def)
  finally show ?thesis .
qed

end
