(* ===== verification/Json.thy ===== *)
theory Json
  imports Prelude
begin

text \<open>
  The part of Go's \<open>encoding/json\<close> (and \<open>unicode/utf8\<close>) that \<open>internal/protocol/messages.go\<close>
  and its callers use: printing a value as compact JSON text with the escapes of
  \<open>json.Marshal\<close>, and reading JSON text as \<open>json.Unmarshal\<close> does, with its grammar, its
  replacement of invalid UTF-8, its nesting limit and its case-insensitive field names.
  The parser runs on fuel and reports separately that it ran out; the fuel \<open>Unmarshal\<close> is
  given is shown to be always enough. Reading what was printed gives the value back.
\<close>

section \<open>Values\<close>

text \<open>Numbers are kept as their literal; strings are the decoded bytes; objects keep order and repetitions.\<close>

datatype json =
    JNull
  | JBool bool
  | JNum string
  | JStr string
  | JArr "json list"
  | JObj "(string \<times> json) list"

abbreviation code :: "char \<Rightarrow> nat" where "code \<equiv> of_char"

section \<open>UTF-8\<close>

definition cont :: "char \<Rightarrow> bool" where
  "cont c \<longleftrightarrow> 0x80 \<le> code c \<and> code c \<le> 0xBF"

text \<open>The tables of \<open>unicode/utf8\<close>: by its first byte, the length of an encoding (0: none) and the range of its second byte.\<close>

definition rune_shape :: "nat \<Rightarrow> nat \<times> nat \<times> nat" where
  "rune_shape a =
     (if a < 0x80 then (1, 0, 0)
      else if a < 0xC2 then (0, 0, 0)
      else if a < 0xE0 then (2, 0x80, 0xBF)
      else if a = 0xE0 then (3, 0xA0, 0xBF)
      else if a = 0xED then (3, 0x80, 0x9F)
      else if a < 0xF0 then (3, 0x80, 0xBF)
      else if a = 0xF0 then (4, 0x90, 0xBF)
      else if a < 0xF4 then (4, 0x80, 0xBF)
      else if a = 0xF4 then (4, 0x80, 0x8F)
      else (0, 0, 0))"

text \<open>The length of the well-formed encoding at the start of a string; 0 if there is none.\<close>

definition rune_len :: "string \<Rightarrow> nat" where
  "rune_len s =
     (case s of
        [] \<Rightarrow> 0
      | c0 # t \<Rightarrow>
          (case rune_shape (code c0) of
             (n, lo, hi) \<Rightarrow>
               if n \<le> 1 then n
               else if n - 1 \<le> length t \<and> lo \<le> code (hd t) \<and> code (hd t) \<le> hi \<and> list_all cont (take (n - 2) (tl t)) then n
               else 0))"

text \<open>\<open>utf8.EncodeRune\<close>; surrogates and numbers out of range become U+FFFD.\<close>

definition replacement :: string where
  "replacement = map char_of [0xEF, 0xBF, 0xBD :: nat]"

definition encode_rune :: "nat \<Rightarrow> string" where
  "encode_rune r =
     (if r < 0x80 then [char_of r]
      else if r < 0x800 then map char_of [0xC0 + r div 64, 0x80 + r mod 64]
      else if 0xD800 \<le> r \<and> r \<le> 0xDFFF then replacement
      else if r < 0x10000 then map char_of [0xE0 + r div 4096, 0x80 + r div 64 mod 64, 0x80 + r mod 64]
      else if r < 0x110000 then
        map char_of [0xF0 + r div 262144, 0x80 + r div 4096 mod 64, 0x80 + r div 64 mod 64, 0x80 + r mod 64]
      else replacement)"

text \<open>A string with every byte that does not belong to a well-formed encoding replaced by U+FFFD.\<close>

function coerce_utf8 :: "string \<Rightarrow> string" where
  "coerce_utf8 [] = []"
| "coerce_utf8 (c # t) =
     (if rune_len (c # t) = 0 then replacement @ coerce_utf8 t
      else take (rune_len (c # t)) (c # t) @ coerce_utf8 (drop (rune_len (c # t) - 1) t))"
  by pat_completeness auto
termination by (relation "measure length") auto

definition valid_utf8 :: "string \<Rightarrow> bool" where
  "valid_utf8 s \<longleftrightarrow> coerce_utf8 s = s"

section \<open>Printing\<close>

definition hex_char :: "nat \<Rightarrow> char" where
  "hex_char n = (if n < 10 then char_of (48 + n) else char_of (87 + n))"

definition bslash :: char where "bslash = CHR 0x5C"
definition dquote :: char where "dquote = CHR 0x22"

text \<open>\<open>\u00XX\<close> for a byte.\<close>

definition u00 :: "char \<Rightarrow> string" where
  "u00 c = [bslash, CHR ''u'', CHR ''0'', CHR ''0'', hex_char (code c div 16), hex_char (code c mod 16)]"

text \<open>How \<open>appendString\<close> prints an ASCII byte (with HTML escaping on, the default).\<close>

definition quote_ascii :: "char \<Rightarrow> string" where
  "quote_ascii c =
     (if c = dquote \<or> c = bslash then [bslash, c]
      else if c = CHR 0x08 then [bslash, CHR ''b'']
      else if c = CHR 0x0C then [bslash, CHR ''f'']
      else if c = CHR 0x0A then [bslash, CHR ''n'']
      else if c = CHR 0x0D then [bslash, CHR ''r'']
      else if c = CHR 0x09 then [bslash, CHR ''t'']
      else if code c < 0x20 \<or> c = CHR ''<'' \<or> c = CHR ''>'' \<or> c = CHR ''&'' then u00 c
      else [c])"

text \<open>U+2028 and U+2029, which are printed as escapes.\<close>

definition line_sep :: "string \<Rightarrow> bool" where
  "line_sep r \<longleftrightarrow> r = map char_of [0xE2, 0x80, 0xA8 :: nat] \<or> r = map char_of [0xE2, 0x80, 0xA9 :: nat]"

function quote_body :: "string \<Rightarrow> string" where
  "quote_body [] = []"
| "quote_body (c # t) =
     (let n = rune_len (c # t); r = take n (c # t)
      in if code c < 0x80 then quote_ascii c @ quote_body t
         else if n = 0 then [bslash] @ ''ufffd'' @ quote_body t
         else if line_sep r then [bslash] @ ''u202'' @ [hex_char (code (r ! 2) mod 16)] @ quote_body (drop (n - 1) t)
         else r @ quote_body (drop (n - 1) t))"
  by pat_completeness auto
termination by (relation "measure length") auto

definition quote_string :: "string \<Rightarrow> string" where
  "quote_string s = dquote # quote_body s @ [dquote]"

fun commas :: "string list \<Rightarrow> string" where
  "commas [] = []"
| "commas [x] = x"
| "commas (x # y # ys) = x @ '','' @ commas (y # ys)"

fun marshal :: "json \<Rightarrow> string" where
  "marshal JNull = ''null''"
| "marshal (JBool b) = (if b then ''true'' else ''false'')"
| "marshal (JNum l) = l"
| "marshal (JStr s) = quote_string s"
| "marshal (JArr vs) = ''['' @ commas (map marshal vs) @ '']''"
| "marshal (JObj ms) = ''{'' @ commas (map (\<lambda>(k, v). quote_string k @ '':'' @ marshal v) ms) @ ''}''"

section \<open>Reading\<close>

fun skip_ws :: "string \<Rightarrow> string" where
  "skip_ws [] = []"
| "skip_ws (c # t) = (if c \<in> {CHR '' '', CHR 0x09, CHR 0x0A, CHR 0x0D} then skip_ws t else c # t)"

definition hex_value :: "char \<Rightarrow> nat option" where
  "hex_value c =
     (if 48 \<le> code c \<and> code c \<le> 57 then Some (code c - 48)
      else if 97 \<le> code c \<and> code c \<le> 102 then Some (code c - 87)
      else if 65 \<le> code c \<and> code c \<le> 70 then Some (code c - 55)
      else None)"

text \<open>Four hexadecimal digits.\<close>

definition hex4_value :: "string \<Rightarrow> nat option" where
  "hex4_value s =
     (case s of
        a # b # c # d # _ \<Rightarrow>
          (case (hex_value a, hex_value b, hex_value c, hex_value d) of
             (Some w, Some x, Some y, Some z) \<Rightarrow> Some (((w * 16 + x) * 16 + y) * 16 + z)
           | _ \<Rightarrow> None)
      | _ \<Rightarrow> None)"

text \<open>The code unit of an escape \<open>\uXXXX\<close> at the start of a string.\<close>

definition u_escape :: "string \<Rightarrow> nat option" where
  "u_escape s = (case s of b # u # t \<Rightarrow> if b = bslash \<and> u = CHR ''u'' then hex4_value t else None | _ \<Rightarrow> None)"

text \<open>
  One step of the scanner and of \<open>unquoteBytes\<close> inside a string: the bytes it stands for
  and how many it takes. \<open>None\<close>: a control byte, or a bad escape.
\<close>

definition unquote_escape :: "char \<Rightarrow> string option" where
  "unquote_escape e =
     (if e = dquote \<or> e = bslash \<or> e = CHR ''/'' then Some [e]
      else if e = CHR ''b'' then Some [CHR 0x08]
      else if e = CHR ''f'' then Some [CHR 0x0C]
      else if e = CHR ''n'' then Some [CHR 0x0A]
      else if e = CHR ''r'' then Some [CHR 0x0D]
      else if e = CHR ''t'' then Some [CHR 0x09]
      else None)"

definition unquote_u :: "string \<Rightarrow> (string \<times> nat) option" where
  "unquote_u s =
     (case u_escape s of
        None \<Rightarrow> None
      | Some r \<Rightarrow>
          if 0xD800 \<le> r \<and> r \<le> 0xDFFF
          then case u_escape (drop 6 s) of
                 Some r1 \<Rightarrow>
                   if r < 0xDC00 \<and> 0xDC00 \<le> r1 \<and> r1 \<le> 0xDFFF
                   then Some (encode_rune ((r - 0xD800) * 1024 + (r1 - 0xDC00) + 0x10000), 12)
                   else Some (replacement, 6)
               | None \<Rightarrow> Some (replacement, 6)
          else Some (encode_rune r, 6))"

definition unquote_step :: "char \<Rightarrow> string \<Rightarrow> (string \<times> nat) option" where
  "unquote_step c t =
     (if c = bslash
      then (case t of
              [] \<Rightarrow> None
            | e # _ \<Rightarrow> if e = CHR ''u'' then unquote_u (c # t)
                       else map_option (\<lambda>x. (x, 2)) (unquote_escape e))
      else if code c < 0x20 then None
      else if code c < 0x80 then Some ([c], 1)
      else let n = rune_len (c # t) in if n = 0 then Some (replacement, 1) else Some (take n (c # t), n))"

text \<open>The rest of a string literal after its opening quote: its value and what follows it.\<close>

function unquote_body :: "string \<Rightarrow> (string \<times> string) option" where
  "unquote_body [] = None"
| "unquote_body (c # t) =
     (if c = dquote then Some ([], t)
      else case unquote_step c t of
             None \<Rightarrow> None
           | Some (x, n) \<Rightarrow> (case unquote_body (drop (n - 1) t) of
               None \<Rightarrow> None | Some (y, rest) \<Rightarrow> Some (x @ y, rest)))"
  by pat_completeness auto
termination by (relation "measure length") auto

text \<open>Number literals.\<close>

definition scan_digits :: "string \<Rightarrow> (string \<times> string) option" where
  "scan_digits s = (if takeWhile is_digit s = [] then None else Some (takeWhile is_digit s, dropWhile is_digit s))"

definition scan_int :: "string \<Rightarrow> (string \<times> string) option" where
  "scan_int s = (case s of c # t \<Rightarrow> if c = CHR ''0'' then Some ([c], t) else scan_digits s | [] \<Rightarrow> None)"

definition scan_frac :: "string \<Rightarrow> (string \<times> string) option" where
  "scan_frac s =
     (case s of
        c # t \<Rightarrow> if c = CHR ''.'' then map_option (\<lambda>(d, r). (c # d, r)) (scan_digits t) else Some ([], s)
      | [] \<Rightarrow> Some ([], []))"

definition scan_exp :: "string \<Rightarrow> (string \<times> string) option" where
  "scan_exp s =
     (case s of
        c # t \<Rightarrow>
          if c = CHR ''e'' \<or> c = CHR ''E''
          then (case t of
                  g # u \<Rightarrow> if g = CHR ''+'' \<or> g = CHR ''-'' then map_option (\<lambda>(d, r). (c # g # d, r)) (scan_digits u)
                            else map_option (\<lambda>(d, r). (c # d, r)) (scan_digits t)
                | [] \<Rightarrow> None)
          else Some ([], s)
      | [] \<Rightarrow> Some ([], []))"

definition scan_number :: "string \<Rightarrow> (string \<times> string) option" where
  "scan_number s =
     (let (sign, s1) = (case s of c # t \<Rightarrow> if c = CHR ''-'' then ([c], t) else ([], s) | [] \<Rightarrow> ([], []))
      in case scan_int s1 of
           None \<Rightarrow> None
         | Some (i, s2) \<Rightarrow> (case scan_frac s2 of
             None \<Rightarrow> None
           | Some (f, s3) \<Rightarrow> (case scan_exp s3 of
               None \<Rightarrow> None
             | Some (e, s4) \<Rightarrow> Some (sign @ i @ f @ e, s4))))"

text \<open>
  Values. The first number is fuel, the second the nesting still allowed; a list is the
  elements or members read so far, in reverse.
\<close>

datatype 'a parsed = POk 'a string | PError | PFuel

definition literal :: "string \<Rightarrow> json \<Rightarrow> string \<Rightarrow> json parsed" where
  "literal w v s = (if take (length w) s = w then POk v (drop (length w) s) else PError)"

definition parse_scalar :: "char \<Rightarrow> string \<Rightarrow> json parsed" where
  "parse_scalar c t =
     (if c = dquote then
        (case unquote_body t of None \<Rightarrow> PError | Some (x, r) \<Rightarrow> POk (JStr x) r)
      else if c = CHR ''t'' then literal ''true'' (JBool True) (c # t)
      else if c = CHR ''f'' then literal ''false'' (JBool False) (c # t)
      else if c = CHR ''n'' then literal ''null'' JNull (c # t)
      else (case scan_number (c # t) of None \<Rightarrow> PError | Some (l, r) \<Rightarrow> POk (JNum l) r))"

text \<open>The name of a member and the colon after it.\<close>

definition parse_key :: "string \<Rightarrow> (string \<times> string) option" where
  "parse_key s =
     (case skip_ws s of
        [] \<Rightarrow> None
      | q # s1 \<Rightarrow>
          if q \<noteq> dquote then None
          else case unquote_body s1 of
                 None \<Rightarrow> None
               | Some (k, s2) \<Rightarrow>
                   (case skip_ws s2 of [] \<Rightarrow> None | g # s3 \<Rightarrow> if g = CHR '':'' then Some (k, s3) else None))"

fun parse_value :: "nat \<Rightarrow> nat \<Rightarrow> string \<Rightarrow> json parsed"
  and parse_elems :: "nat \<Rightarrow> nat \<Rightarrow> json list \<Rightarrow> string \<Rightarrow> json parsed"
  and parse_members :: "nat \<Rightarrow> nat \<Rightarrow> (string \<times> json) list \<Rightarrow> string \<Rightarrow> json parsed" where
  "parse_value 0 d s = PFuel"
| "parse_value (Suc f) d s =
     (case skip_ws s of
        [] \<Rightarrow> PError
      | c # t \<Rightarrow>
          if c = CHR ''{'' then
            if d = 0 then PError
            else (case skip_ws t of
                    e # r \<Rightarrow> if e = CHR ''}'' then POk (JObj []) r else parse_members f (d - 1) [] t
                  | [] \<Rightarrow> PError)
          else if c = CHR ''['' then
            if d = 0 then PError
            else (case skip_ws t of
                    e # r \<Rightarrow> if e = CHR '']'' then POk (JArr []) r else parse_elems f (d - 1) [] t
                  | [] \<Rightarrow> PError)
          else parse_scalar c t)"
| "parse_elems 0 d acc s = PFuel"
| "parse_elems (Suc f) d acc s =
     (case parse_value f d s of
        POk v r \<Rightarrow>
          (case skip_ws r of
             c # t \<Rightarrow> if c = CHR '','' then parse_elems f d (v # acc) t
                      else if c = CHR '']'' then POk (JArr (rev (v # acc))) t else PError
           | [] \<Rightarrow> PError)
      | e \<Rightarrow> e)"
| "parse_members 0 d acc s = PFuel"
| "parse_members (Suc f) d acc s =
     (case parse_key s of
        None \<Rightarrow> PError
      | Some (k, s1) \<Rightarrow>
          (case parse_value f d s1 of
             POk v r \<Rightarrow>
               (case skip_ws r of
                  c # t \<Rightarrow> if c = CHR '','' then parse_members f d ((k, v) # acc) t
                           else if c = CHR ''}'' then POk (JObj (rev ((k, v) # acc))) t else PError
                | [] \<Rightarrow> PError)
           | e \<Rightarrow> e))"

definition max_depth :: nat where "max_depth = 10000"

text \<open>The syntax check and the value of a whole text; \<open>None\<close> is a syntax error.\<close>

definition parse_json :: "string \<Rightarrow> json option" where
  "parse_json s =
     (case parse_value (Suc (2 * length s)) max_depth s of
        POk v r \<Rightarrow> if skip_ws r = [] then Some v else None
      | _ \<Rightarrow> None)"

section \<open>The parser never runs out of fuel\<close>

lemma length_skip_ws: "length (skip_ws s) \<le> length s"
  by (induction s) auto

lemma skip_ws_Cons: "skip_ws s = c # t \<Longrightarrow> length t < length s"
  using length_skip_ws [of s] by simp

lemma unquote_body_shorter: "unquote_body s = Some (x, r) \<Longrightarrow> length r < length s"
proof (induction s arbitrary: x r rule: unquote_body.induct)
  case (2 c t)
  show ?case
  proof (cases "c = dquote")
    case False
    with "2.prems" obtain y n z where "unquote_step c t = Some (y, n)" "unquote_body (drop (n - 1) t) = Some (z, r)"
      by (auto split: option.splits)
    from "2.IH" [OF False this(1) refl this(2)] show ?thesis by simp
  qed (use "2.prems" in simp)
qed simp

lemma scan_digits_shorter: "scan_digits s = Some (l, r) \<Longrightarrow> length r < length s"
  using length_dropWhile_le [of is_digit "tl s"]
  by (cases s) (auto simp: scan_digits_def split: if_splits)

lemma scan_int_shorter: "scan_int s = Some (l, r) \<Longrightarrow> length r < length s"
  by (cases s) (auto simp: scan_int_def split: if_splits dest: scan_digits_shorter)

lemma scan_frac_shorter: "scan_frac s = Some (l, r) \<Longrightarrow> length r \<le> length s"
  by (cases s) (auto simp: scan_frac_def split: if_splits dest: scan_digits_shorter)

lemma scan_exp_shorter: "scan_exp s = Some (l, r) \<Longrightarrow> length r \<le> length s"
  by (cases s) (auto simp: scan_exp_def split: if_splits list.splits dest!: scan_digits_shorter)

lemma scan_number_shorter:
  assumes "scan_number s = Some (l, r)"
  shows "length r < length s"
proof -
  obtain sign s1 where s1: "(case s of c # t \<Rightarrow> if c = CHR ''-'' then ([c], t) else ([], s) | [] \<Rightarrow> ([], [])) = (sign, s1)"
    by fastforce
  then have "length s1 \<le> length s" by (auto split: list.splits if_splits)
  moreover from assms s1 obtain i s2 f s3 e where "scan_int s1 = Some (i, s2)" "scan_frac s2 = Some (f, s3)"
    "scan_exp s3 = Some (e, r)"
    by (auto simp: scan_number_def split: option.splits)
  ultimately show ?thesis
    using scan_int_shorter scan_frac_shorter scan_exp_shorter by fastforce
qed

lemma literal_shorter: "literal w v (c # t) = POk u r \<Longrightarrow> w \<noteq> [] \<Longrightarrow> length r < length (c # t)"
  by (cases w) (auto simp: literal_def split: if_splits)

lemma parse_scalar_shorter: "parse_scalar c t = POk v r \<Longrightarrow> length r \<le> length t"
  using literal_shorter [of _ _ c t v r]
  by (auto simp: parse_scalar_def less_Suc_eq_le split: if_splits option.splits
      dest!: unquote_body_shorter scan_number_shorter)

lemma parse_key_shorter: "parse_key s = Some (k, r) \<Longrightarrow> length r < length s"
  by (auto simp: parse_key_def split: list.splits if_splits option.splits dest!: skip_ws_Cons unquote_body_shorter)

lemma parse_shorter:
  "(\<forall>d s v r. parse_value f d s = POk v r \<longrightarrow> length r < length s)
   \<and> (\<forall>d acc s v r. parse_elems f d acc s = POk v r \<longrightarrow> length r < length s)
   \<and> (\<forall>d acc s v r. parse_members f d acc s = POk v r \<longrightarrow> length r < length s)"
proof (induction f)
  case (Suc f)
  have v: "length r < length s" if "parse_value (Suc f) d s = POk v r" for d s v r
  proof (cases "skip_ws s")
    case (Cons c t)
    note lt = skip_ws_Cons [OF Cons]
    have ws: "length r' < length s" if "skip_ws t = e # r'" for e r'
      using skip_ws_Cons [OF that] lt by simp
    have "length r \<le> length t"
      using \<open>parse_value (Suc f) d s = POk v r\<close> Cons Suc.IH parse_scalar_shorter [of c t v r]
      by (auto split: if_splits list.splits dest!: skip_ws_Cons) (metis less_imp_le)+
    with lt show ?thesis by simp
  qed (use that in simp)
  have e: "length r < length s" if pe: "parse_elems (Suc f) d acc s = POk v r" for d acc s v r
  proof -
    from pe obtain w u c t where w: "parse_value f d s = POk w u" "skip_ws u = c # t"
      and r: "c = CHR '','' \<and> parse_elems f d (w # acc) t = POk v r \<or> r = t"
      by (auto split: parsed.splits list.splits if_splits)
    have "length u < length s" "length t < length u" using w Suc.IH skip_ws_Cons by blast+
    moreover have "length r \<le> length t" using r Suc.IH by (metis less_imp_le order_refl)
    ultimately show ?thesis by simp
  qed
  have m: "length r < length s" if pm: "parse_members (Suc f) d acc s = POk v r" for d acc s v r
  proof -
    from pm obtain k s1 w u c t where w: "parse_key s = Some (k, s1)" "parse_value f d s1 = POk w u" "skip_ws u = c # t"
      and r: "c = CHR '','' \<and> parse_members f d ((k, w) # acc) t = POk v r \<or> r = t"
      by (auto split: parsed.splits list.splits if_splits option.splits)
    have "length s1 < length s" "length u < length s1" "length t < length u"
      using w Suc.IH skip_ws_Cons parse_key_shorter by blast+
    moreover have "length r \<le> length t" using r Suc.IH by (metis less_imp_le order_refl)
    ultimately show ?thesis by simp
  qed
  show ?case using v e m by blast
qed simp

lemmas parse_value_shorter = parse_shorter [THEN conjunct1, rule_format]

lemma parse_scalar_fuel: "parse_scalar c t \<noteq> PFuel"
  by (auto simp: parse_scalar_def literal_def split: option.split)

lemma parse_fuel:
  "(\<forall>d s. 2 * length s < f \<longrightarrow> parse_value f d s \<noteq> PFuel)
   \<and> (\<forall>d acc s. Suc (2 * length s) < f \<longrightarrow> parse_elems f d acc s \<noteq> PFuel)
   \<and> (\<forall>d acc s. Suc (2 * length s) < f \<longrightarrow> parse_members f d acc s \<noteq> PFuel)"
proof (induction f)
  case (Suc f)
  have v: "parse_value (Suc f) d s \<noteq> PFuel" if "2 * length s < Suc f" for d s
  proof (cases "skip_ws s")
    case (Cons c t)
    have "Suc (2 * length t) < f" using skip_ws_Cons [OF Cons] that by simp
    with Cons Suc.IH parse_scalar_fuel [of c t] show ?thesis by (auto split: list.split)
  qed simp
  have e: "parse_elems (Suc f) d acc s \<noteq> PFuel" if n: "Suc (2 * length s) < Suc f" for d acc s
  proof (cases "parse_value f d s")
    case (POk w u)
    have "Suc (2 * length t) < f" if "skip_ws u = c # t" for c t
      using skip_ws_Cons [OF that] parse_value_shorter [OF POk] n by simp
    with POk Suc.IH show ?thesis by (auto split: list.split)
  qed (use Suc.IH n in auto)
  have m: "parse_members (Suc f) d acc s \<noteq> PFuel" if n: "Suc (2 * length s) < Suc f" for d acc s
  proof (cases "parse_key s")
    case (Some ks)
    obtain k s1 where ks: "ks = (k, s1)" by fastforce
    have l: "length s1 < length s" using parse_key_shorter Some ks by blast
    show ?thesis
    proof (cases "parse_value f d s1")
      case (POk w u)
      have "Suc (2 * length t) < f" if "skip_ws u = c # t" for c t
        using skip_ws_Cons [OF that] parse_value_shorter [OF POk] n l by simp
      with Some ks POk Suc.IH show ?thesis by (auto split: list.split)
    qed (use Some ks Suc.IH n l in auto)
  qed simp
  show ?case using v e m by blast
qed simp

section \<open>Strings come back\<close>

lemma rune_len_take:
  assumes n: "rune_len s = n" "0 < n"
  shows "rune_len (take n s @ x) = n"
proof -
  obtain c0 t where s: "s = c0 # t" using n by (cases s) (auto simp: rune_len_def)
  obtain k lo hi where sh: "rune_shape (code c0) = (k, lo, hi)" by (cases "rune_shape (code c0)")
  show ?thesis
  proof (cases "k \<le> 1")
    case True
    with n s sh show ?thesis by (cases n) (auto simp: rune_len_def)
  next
    case False
    with n s sh have k: "k = n" "n - 1 \<le> length t" "lo \<le> code (hd t)" "code (hd t) \<le> hi" "list_all cont (take (n - 2) (tl t))"
      by (auto simp: rune_len_def split: if_splits)
    with False obtain c1 u where t: "t = c1 # u" by (cases t) auto
    obtain m where m: "n = Suc (Suc m)" using False k(1) by (metis One_nat_def Suc_le_eq gr0_conv_Suc not_less_eq_eq not_le old.nat.exhaust)
    from k t m show ?thesis unfolding s by (simp add: rune_len_def sh)
  qed
qed

lemma rune_len_ascii: "code c < 0x80 \<Longrightarrow> rune_len (c # t) = 1"
  by (simp add: rune_len_def rune_shape_def)

lemma hex_value_char: "n < 16 \<Longrightarrow> hex_value (hex_char n) = Some n"
  by (auto simp: hex_value_def hex_char_def)

lemma hex_value_digits: "hex_value CHR ''0'' = Some 0" "hex_value CHR ''2'' = Some 2" "hex_value CHR ''f'' = Some 15"
  "hex_value CHR ''d'' = Some 13"
  by (simp_all add: hex_value_def)

lemma encode_rune_small: "r < 0x80 \<Longrightarrow> encode_rune r = [char_of r]"
  by (simp add: encode_rune_def)

lemma unquote_body_u:
  assumes "unquote_u ([bslash, CHR ''u''] @ h @ x) = Some (y, 6)" and "length h = 4"
  shows "unquote_body ([bslash, CHR ''u''] @ h @ x) = map_option (\<lambda>(z, r). (y @ z, r)) (unquote_body x)"
  using assms by (auto simp: unquote_step_def bslash_def dquote_def split: option.split)

lemma hex4_value_append: "length h = 4 \<Longrightarrow> hex4_value (h @ x) = hex4_value h"
  by (auto simp: hex4_value_def length_Suc_conv eval_nat_numeral)

text \<open>An escape \<open>\uXXXX\<close> that is no surrogate.\<close>

lemma unquote_body_hex:
  assumes "length h = 4" and "hex4_value h = Some r" and "r < 0xD800 \<or> 0xDFFF < r"
  shows "unquote_body ([bslash, CHR ''u''] @ h @ x) = map_option (\<lambda>(z, q). (encode_rune r @ z, q)) (unquote_body x)"
proof (rule unquote_body_u [OF _ assms(1)])
  show "unquote_u ([bslash, CHR ''u''] @ h @ x) = Some (encode_rune r, 6)"
    using assms by (auto simp: unquote_u_def u_escape_def hex4_value_append)
qed

lemma hex4_u00:
  assumes "code c < 0x80"
  shows "hex4_value [CHR ''0'', CHR ''0'', hex_char (code c div 16), hex_char (code c mod 16)] = Some (code c)"
  using assms by (simp add: hex4_value_def hex_value_char hex_value_digits)

lemma unquote_quote_ascii:
  assumes c: "code c < 0x80"
  shows "unquote_body (quote_ascii c @ x) = map_option (\<lambda>(z, q). (c # z, q)) (unquote_body x)"
proof -
  have u: "unquote_body (u00 c @ x) = map_option (\<lambda>(z, q). (c # z, q)) (unquote_body x)"
    using unquote_body_hex [OF _ hex4_u00 [OF c], of x] c
    by (simp add: u00_def encode_rune_small)
  have e: "unquote_body (bslash # e # x) = map_option (\<lambda>(z, q). (y @ z, q)) (unquote_body x)"
    if "unquote_escape e = Some y" "e \<noteq> CHR ''u''" for e y
    using that by (auto simp: unquote_step_def bslash_def dquote_def split: option.split)
  have p: "unquote_body (c # x) = map_option (\<lambda>(z, q). (c # z, q)) (unquote_body x)"
    if "c \<noteq> dquote" "c \<noteq> bslash" "\<not> code c < 0x20"
    using that c by (auto simp: unquote_step_def split: option.split)
  consider "c = dquote \<or> c = bslash" | "c = CHR 0x08" | "c = CHR 0x0C" | "c = CHR 0x0A" | "c = CHR 0x0D" | "c = CHR 0x09"
    | "c \<notin> {dquote, bslash, CHR 0x08, CHR 0x0C, CHR 0x0A, CHR 0x0D, CHR 0x09}"
      "code c < 0x20 \<or> c = CHR ''<'' \<or> c = CHR ''>'' \<or> c = CHR ''&''"
    | "c \<notin> {dquote, bslash, CHR 0x08, CHR 0x0C, CHR 0x0A, CHR 0x0D, CHR 0x09}"
      "\<not> (code c < 0x20 \<or> c = CHR ''<'' \<or> c = CHR ''>'' \<or> c = CHR ''&'')"
    by blast
  then show ?thesis
  proof cases
    case 1
    then have "quote_ascii c = [bslash, c]" "unquote_escape c = Some [c]" "c \<noteq> CHR ''u''"
      by (auto simp: quote_ascii_def unquote_escape_def bslash_def dquote_def)
    with e [of c "[c]"] show ?thesis by (simp del: unquote_body.simps)
  next
    case 7
    then have "quote_ascii c = u00 c" by (simp add: quote_ascii_def)
    with u show ?thesis by simp
  next
    case 8
    then have "quote_ascii c = [c]" by (simp add: quote_ascii_def)
    with p 8 show ?thesis by (simp del: unquote_body.simps)
  qed (use e [of "CHR ''b''" "[CHR 0x08]"] e [of "CHR ''f''" "[CHR 0x0C]"] e [of "CHR ''n''" "[CHR 0x0A]"]
      e [of "CHR ''r''" "[CHR 0x0D]"] e [of "CHR ''t''" "[CHR 0x09]"] in
      \<open>simp_all add: quote_ascii_def unquote_escape_def bslash_def dquote_def del: unquote_body.simps\<close>)
qed

lemma unquote_rune:
  assumes n: "rune_len (c # t) = n" "0 < n" and c: "\<not> code c < 0x80"
  shows "unquote_body (take n (c # t) @ x) = map_option (\<lambda>(z, q). (take n (c # t) @ z, q)) (unquote_body x)"
proof -
  obtain m where m: "n = Suc m" using n(2) by (cases n) auto
  have le: "m \<le> length t"
  proof -
    have "n \<le> length (c # t)"
      using n(1) by (auto simp: rune_len_def split: prod.splits if_splits)
    then show ?thesis by (simp add: m)
  qed
  have "rune_len (c # take m t @ x) = n" using rune_len_take [OF n, of x] by (simp add: m)
  moreover have "c \<noteq> dquote" "c \<noteq> bslash" using c by (auto simp: dquote_def bslash_def)
  ultimately show ?thesis using c le
    by (auto simp: m unquote_step_def split: option.split)
qed

lemma unquote_quote: "unquote_body (quote_body s @ dquote # rest) = Some (coerce_utf8 s, rest)"
proof (induction s rule: quote_body.induct)
  case (2 c t)
  let ?n = "rune_len (c # t)" and ?r = "take (rune_len (c # t)) (c # t)"
  consider (ascii) "code c < 0x80" | (bad) "\<not> code c < 0x80" "?n = 0" | (sep) "\<not> code c < 0x80" "0 < ?n" "line_sep ?r"
    | (rune) "\<not> code c < 0x80" "0 < ?n" "\<not> line_sep ?r" by auto
  then show ?case
  proof cases
    case ascii
    with 2(1) [OF refl refl ascii] show ?thesis by (simp add: unquote_quote_ascii rune_len_ascii)
  next
    case bad
    have h: "hex4_value ''fffd'' = Some 0xFFFD" by (simp add: hex4_value_def hex_value_digits)
    have r: "encode_rune 0xFFFD = replacement" by (simp add: encode_rune_def replacement_def)
    from 2(2) [OF refl refl bad] bad unquote_body_hex [OF _ h, of "quote_body t @ dquote # rest"] r
    show ?thesis by simp
  next
    case sep
    let ?h = "''202'' @ [hex_char (code (?r ! 2) mod 16)]"
    from sep(3) obtain k where k: "k = 8 \<or> k = 9" "?r = map char_of [0xE2, 0x80, 0xA0 + k :: nat]"
      using that [of 8] that [of 9] by (auto simp: line_sep_def)
    have code2: "code (?r ! 2) mod 16 = k" unfolding k(2) using k(1) by auto
    have h: "hex4_value ?h = Some (0x2020 + k)" unfolding code2 using k(1)
      by (auto simp: hex4_value_def hex_value_digits hex_value_char)
    have r: "encode_rune (0x2020 + k) = ?r" unfolding k(2) using k(1) by (auto simp: encode_rune_def)
    have IH: "unquote_body (quote_body (drop (?n - 1) t) @ dquote # rest) = Some (coerce_utf8 (drop (?n - 1) t), rest)"
      using 2(3) [OF refl refl] sep by simp
    have "quote_body (c # t) = [bslash, CHR ''u''] @ ?h @ quote_body (drop (?n - 1) t)" using sep by (simp add: Let_def)
    moreover have "coerce_utf8 (c # t) = ?r @ coerce_utf8 (drop (?n - 1) t)" using sep(2) by simp
    ultimately show ?thesis
      using unquote_body_hex [OF _ h, of "quote_body (drop (?n - 1) t) @ dquote # rest"] k(1) IH r by auto
  next
    case rune
    have IH: "unquote_body (quote_body (drop (?n - 1) t) @ dquote # rest) = Some (coerce_utf8 (drop (?n - 1) t), rest)"
      using 2(4) [OF refl refl] rune by simp
    have "quote_body (c # t) = ?r @ quote_body (drop (?n - 1) t)" using rune by (simp add: Let_def)
    moreover have "coerce_utf8 (c # t) = ?r @ coerce_utf8 (drop (?n - 1) t)" using rune(2) by simp
    ultimately show ?thesis
      using unquote_rune [OF refl rune(2,1), of "quote_body (drop (?n - 1) t) @ dquote # rest"] IH by simp
  qed
qed simp

section \<open>Values come back\<close>

text \<open>The values the program prints: integers, well-formed strings, and what is built of them.\<close>

fun printable :: "json \<Rightarrow> bool" where
  "printable (JNum l) = (\<exists>i. l = show_int i)"
| "printable (JStr s) = valid_utf8 s"
| "printable (JArr vs) = list_all printable vs"
| "printable (JObj ms) = list_all (\<lambda>(k, v). valid_utf8 k \<and> printable v) ms"
| "printable _ = True"

fun depth_ok :: "nat \<Rightarrow> json \<Rightarrow> bool" where
  "depth_ok d (JArr vs) = (0 < d \<and> list_all (depth_ok (d - 1)) vs)"
| "depth_ok d (JObj ms) = (0 < d \<and> list_all (\<lambda>(k, v). depth_ok (d - 1) v) ms)"
| "depth_ok d _ = True"

text \<open>What follows a printed value: nothing, or a character that cannot continue a number.\<close>

definition ends_value :: "string \<Rightarrow> bool" where
  "ends_value r \<longleftrightarrow> r = [] \<or> hd r \<in> {CHR '','', CHR '']'', CHR ''}''}"

lemma ends_value_simps [simp]:
  "ends_value []" "ends_value (CHR '','' # r)" "ends_value (CHR '']'' # r)" "ends_value (CHR ''}'' # r)"
  by (simp_all add: ends_value_def)

lemma show_nat_0: "show_nat 0 = ''0''"
  by code_simp

lemma hd_show_nat: "0 < n \<Longrightarrow> hd (show_nat n) \<noteq> CHR ''0''"
proof (induction n rule: show_nat.induct)
  case (1 n)
  show ?case
  proof (cases "n < 10")
    case True
    then have "hd (show_nat n) = char_of (48 + n)" by (simp add: show_nat.simps [of n])
    moreover have "char_of (48 + n) \<noteq> CHR ''0''"
    proof
      assume "char_of (48 + n) = CHR ''0''"
      from arg_cong [OF this, of "of_char :: char \<Rightarrow> nat"] True 1(2) show False by simp
    qed
    ultimately show ?thesis by simp
  next
    case False
    with 1 show ?thesis by (simp add: show_nat.simps [of n] hd_append)
  qed
qed

lemma digits_then_end:
  assumes "\<And>c. c \<in> set ds \<Longrightarrow> is_digit c" and "ends_value r"
  shows "takeWhile is_digit (ds @ r) = ds" and "dropWhile is_digit (ds @ r) = r"
proof -
  have "r = [] \<or> \<not> is_digit (hd r)" using assms(2) by (auto simp: ends_value_def is_digit_def)
  then show "takeWhile is_digit (ds @ r) = ds" "dropWhile is_digit (ds @ r) = r"
    using assms(1) by (cases r; simp add: takeWhile_append dropWhile_append)+
qed

lemma scan_int_show_nat: "ends_value r \<Longrightarrow> scan_int (show_nat n @ r) = Some (show_nat n, r)"
proof (cases "n = 0")
  case True
  then show ?thesis by (simp add: show_nat_0 scan_int_def)
next
  case False
  assume r: "ends_value r"
  obtain c t where ct: "show_nat n = c # t" by (cases "show_nat n") auto
  moreover have "c \<noteq> CHR ''0''" using hd_show_nat [of n] False ct by simp
  moreover have "scan_digits (show_nat n @ r) = Some (show_nat n, r)"
    using digits_then_end [of "show_nat n" r] show_nat_digits r by (simp add: scan_digits_def)
  ultimately show ?thesis by (simp add: scan_int_def)
qed

lemma scan_rest: "ends_value r \<Longrightarrow> scan_frac r = Some ([], r)" "ends_value r \<Longrightarrow> scan_exp r = Some ([], r)"
  by (cases r; auto simp: ends_value_def scan_frac_def scan_exp_def)+

lemma scan_number_show_int: "ends_value r \<Longrightarrow> scan_number (show_int i @ r) = Some (show_int i, r)"
proof -
  assume r: "ends_value r"
  have minus: "CHR ''-'' \<notin> set (show_nat n)" for n
    using show_nat_digits [of "CHR ''-''" n] by (auto simp: is_digit_def)
  have hd: "show_nat n @ r = c # t \<Longrightarrow> c \<noteq> CHR ''-''" for n c t
    using minus [of n] by (cases "show_nat n") auto
  show ?thesis
  proof (cases "i < 0")
    case True
    then show ?thesis using scan_int_show_nat [OF r] scan_rest [OF r] by (simp add: scan_number_def show_int_def)
  next
    case False
    obtain c t where ct: "show_nat (nat i) @ r = c # t" by (cases "show_nat (nat i) @ r") auto
    have "scan_number (c # t) = Some (show_nat (nat i), r)"
      using hd [OF ct] scan_int_show_nat [OF r, of "nat i"] scan_rest [OF r] by (simp add: scan_number_def ct)
    with False ct show ?thesis by (simp add: show_int_def)
  qed
qed

text \<open>The first character of a printed value.\<close>

definition starts_value :: "char \<Rightarrow> bool" where
  "starts_value c \<longleftrightarrow> c \<notin> {CHR '' '', CHR 0x09, CHR 0x0A, CHR 0x0D, CHR '']'', CHR ''}''}"

lemma skip_ws_start [simp]: "starts_value c \<Longrightarrow> skip_ws (c # t) = c # t"
  by (auto simp: starts_value_def)

lemma starts_quote [simp]: "starts_value dquote"
  by (simp add: starts_value_def dquote_def)

lemma show_int_first: "\<exists>c t. show_int i = c # t \<and> (is_digit c \<or> c = CHR ''-'')"
  using show_nat_digits [of _ "nat i"] by (cases "show_nat (nat i)") (auto simp: show_int_def)

lemma marshal_first: "printable v \<Longrightarrow> \<exists>c t. marshal v = c # t \<and> starts_value c"
proof (cases v)
  case (JNum l)
  assume "printable v"
  with JNum obtain i where "l = show_int i" by auto
  with JNum show_int_first [of i] show ?thesis by (auto simp: starts_value_def is_digit_def)
qed (auto simp: starts_value_def quote_string_def dquote_def)

lemma parse_scalar_string: "valid_utf8 s \<Longrightarrow> parse_scalar dquote (quote_body s @ dquote # r) = POk (JStr s) r"
  by (simp add: parse_scalar_def unquote_quote valid_utf8_def)

lemma parse_scalar_number:
  assumes "ends_value r" and "show_int i = c # t"
  shows "parse_scalar c (t @ r) = POk (JNum (show_int i)) r \<and> c \<noteq> CHR ''{'' \<and> c \<noteq> CHR ''[''"
proof -
  have c: "is_digit c \<or> c = CHR ''-''" using show_int_first [of i] assms(2) by auto
  then have "c \<noteq> dquote" "c \<noteq> CHR ''t''" "c \<noteq> CHR ''f''" "c \<noteq> CHR ''n''" "c \<noteq> CHR ''{''" "c \<noteq> CHR ''[''"
    by (auto simp: is_digit_def dquote_def)
  with scan_number_show_int [OF assms(1), of i] assms(2) show ?thesis by (simp add: parse_scalar_def)
qed

lemma parse_key_quote: "valid_utf8 k \<Longrightarrow> parse_key (quote_string k @ CHR '':'' # r) = Some (k, r)"
  by (simp add: parse_key_def quote_string_def unquote_quote valid_utf8_def skip_ws_start del: skip_ws.simps(2))
    (simp add: dquote_def)

text \<open>Reading one printed value, in whatever context it stands.\<close>

definition reads_back :: "json \<Rightarrow> bool" where
  "reads_back v \<longleftrightarrow> (\<forall>f d r. depth_ok d v \<longrightarrow> ends_value r \<longrightarrow> 2 * length (marshal v @ r) < f \<longrightarrow>
     parse_value f d (marshal v @ r) = POk v r)"

lemma reads_backD:
  "reads_back v \<Longrightarrow> depth_ok d v \<Longrightarrow> ends_value r \<Longrightarrow> 2 * length (marshal v @ r) < f \<Longrightarrow>
   parse_value f d (marshal v @ r) = POk v r"
  by (simp add: reads_back_def)

lemma commas_Cons: "xs \<noteq> [] \<Longrightarrow> commas (x # xs) = x @ CHR '','' # commas xs"
  by (cases xs) auto

lemma parse_elems_back:
  assumes "vs \<noteq> []" and "\<And>v. v \<in> set vs \<Longrightarrow> reads_back v \<and> depth_ok d v"
    and "Suc (2 * length (commas (map marshal vs) @ CHR '']'' # r)) < f"
  shows "parse_elems f d acc (commas (map marshal vs) @ CHR '']'' # r) = POk (JArr (rev acc @ vs)) r"
  using assms
proof (induction vs arbitrary: f acc)
  case (Cons v vs)
  then obtain g where f: "f = Suc g" by (cases f) auto
  note rb = reads_backD [of v d _ g]
  show ?case
  proof (cases "vs = []")
    case True
    with Cons.prems f rb [of "CHR '']'' # r"] show ?thesis by simp
  next
    case False
    let ?rest = "commas (map marshal vs) @ CHR '']'' # r"
    have eq: "commas (map marshal (v # vs)) @ CHR '']'' # r = marshal v @ CHR '','' # ?rest"
      using False by (simp add: commas_Cons)
    have "parse_value g d (marshal v @ CHR '','' # ?rest) = POk v (CHR '','' # ?rest)"
      using Cons.prems(2,3) f eq by (intro rb) auto
    moreover have "parse_elems g d (v # acc) ?rest = POk (JArr (rev (v # acc) @ vs)) r"
      using Cons.prems f eq False by (intro Cons.IH) auto
    ultimately show ?thesis unfolding eq f by simp
  qed
qed simp

abbreviation member :: "string \<times> json \<Rightarrow> string" where
  "member \<equiv> \<lambda>(k, v). quote_string k @ '':'' @ marshal v"

lemma parse_members_back:
  assumes "ms \<noteq> []" and "\<And>k v. (k, v) \<in> set ms \<Longrightarrow> valid_utf8 k \<and> reads_back v \<and> depth_ok d v"
    and "Suc (2 * length (commas (map member ms) @ CHR ''}'' # r)) < f"
  shows "parse_members f d acc (commas (map member ms) @ CHR ''}'' # r) = POk (JObj (rev acc @ ms)) r"
  using assms
proof (induction ms arbitrary: f acc)
  case (Cons m ms)
  then obtain g where f: "f = Suc g" by (cases f) auto
  obtain k v where m: "m = (k, v)" by fastforce
  have k: "valid_utf8 k" and v: "reads_back v" "depth_ok d v" using Cons.prems(2) [of k v] m by auto
  note rb = reads_backD [OF v, of _ g]
  show ?case
  proof (cases "ms = []")
    case True
    with Cons.prems(3) f m rb [of "CHR ''}'' # r"] parse_key_quote [OF k] show ?thesis by simp
  next
    case False
    let ?rest = "commas (map member ms) @ CHR ''}'' # r"
    have eq: "commas (map member (m # ms)) @ CHR ''}'' # r = quote_string k @ CHR '':'' # marshal v @ CHR '','' # ?rest"
      using False m by (simp add: commas_Cons)
    have "parse_value g d (marshal v @ CHR '','' # ?rest) = POk v (CHR '','' # ?rest)"
      using Cons.prems(3) f eq by (intro rb) auto
    moreover have "parse_members g d ((k, v) # acc) ?rest = POk (JObj (rev ((k, v) # acc) @ ms)) r"
      using Cons.prems f eq False by (intro Cons.IH) auto
    ultimately show ?thesis unfolding eq f using parse_key_quote [OF k] m by simp
  qed
qed simp

lemma commas_first:
  "x \<noteq> [] \<Longrightarrow> \<exists>t. commas (x # xs) = hd x # t"
  by (cases xs; cases x) auto

lemma reads_backI:
  assumes "\<And>g d r. depth_ok d v \<Longrightarrow> ends_value r \<Longrightarrow> 2 * length (marshal v @ r) \<le> g \<Longrightarrow>
    parse_value (Suc g) d (marshal v @ r) = POk v r"
  shows "reads_back v"
  unfolding reads_back_def
proof (intro allI impI)
  fix f d r assume h: "depth_ok d v" "ends_value r" "2 * length (marshal v @ r) < f"
  then obtain g where "f = Suc g" by (cases f) auto
  with h assms [of d r g] show "parse_value f d (marshal v @ r) = POk v r" by simp
qed

lemma printable_reads_back: "printable v \<Longrightarrow> reads_back v"
proof (induction v)
  case JNull
  then show ?case by (intro reads_backI) (simp add: parse_scalar_def literal_def dquote_def)
next
  case (JBool b)
  then show ?case by (intro reads_backI) (cases b; simp add: parse_scalar_def literal_def dquote_def)
next
  case (JNum l)
  then obtain i c t where "l = show_int i" "show_int i = c # t" "is_digit c \<or> c = CHR ''-''"
    using show_int_first by (metis printable.simps(1))
  moreover from this have "starts_value c" by (auto simp: starts_value_def is_digit_def)
  ultimately show ?case
    using parse_scalar_number [of _ i c t]
    by (intro reads_backI) (simp del: skip_ws.simps(2))
next
  case (JStr s)
  have "dquote \<noteq> CHR ''{''" "dquote \<noteq> CHR ''[''" by (simp_all add: dquote_def)
  with JStr parse_scalar_string [of s] show ?case
    by (intro reads_backI) (simp add: quote_string_def del: skip_ws.simps(2))
next
  case (JArr vs)
  show ?case
  proof (rule reads_backI)
    fix g d r assume d: "depth_ok d (JArr vs)" and r: "ends_value r" and f: "2 * length (marshal (JArr vs) @ r) \<le> g"
    show "parse_value (Suc g) d (marshal (JArr vs) @ r) = POk (JArr vs) r"
    proof (cases vs)
      case Nil
      with d show ?thesis by simp
    next
      case (Cons v ws)
      have "printable v" using JArr.prems Cons by simp
      with marshal_first obtain c t where ct: "marshal v = c # t" "starts_value c" by blast
      with Cons obtain u where u: "commas (map marshal vs) = c # u"
        using commas_first [of "marshal v" "map marshal ws"] by auto
      have rb: "reads_back w \<and> depth_ok (d - 1) w" if "w \<in> set vs" for w
        using JArr.IH [OF that] JArr.prems d that by (auto simp: list_all_iff)
      have len: "Suc (2 * length (commas (map marshal vs) @ CHR '']'' # r)) < g" using f by simp
      have "parse_elems g (d - 1) [] (commas (map marshal vs) @ CHR '']'' # r) = POk (JArr vs) r"
        using parse_elems_back [OF _ rb len, of "[]"] Cons by simp
      moreover have "c \<noteq> CHR '']''" using ct(2) by (auto simp: starts_value_def)
      ultimately show ?thesis using d u ct(2) by (simp del: skip_ws.simps(2) add: skip_ws_start starts_value_def)
    qed
  qed
next
  case (JObj ms)
  show ?case
  proof (rule reads_backI)
    fix g d r assume d: "depth_ok d (JObj ms)" and r: "ends_value r" and f: "2 * length (marshal (JObj ms) @ r) \<le> g"
    show "parse_value (Suc g) d (marshal (JObj ms) @ r) = POk (JObj ms) r"
    proof (cases ms)
      case Nil
      with d show ?thesis by simp
    next
      case (Cons m ns)
      obtain k v where m: "m = (k, v)" by fastforce
      obtain u where u: "commas (map member ms) = dquote # u"
        using commas_first [of "member m" "map member ns"] Cons m by (auto simp: quote_string_def)
      have rb: "valid_utf8 k \<and> reads_back w \<and> depth_ok (d - 1) w" if "(k, w) \<in> set ms" for k w
        using JObj.IH [OF that] JObj.prems d that by (auto simp: list_all_iff)
      have len: "Suc (2 * length (commas (map member ms) @ CHR ''}'' # r)) < g" using f by simp
      have "parse_members g (d - 1) [] (commas (map member ms) @ CHR ''}'' # r) = POk (JObj ms) r"
        using parse_members_back [OF _ rb len, of "[]"] Cons by simp
      moreover have "dquote \<noteq> CHR ''}''" "starts_value CHR ''{''" by (simp_all add: dquote_def starts_value_def)
      ultimately show ?thesis using d u by (simp del: skip_ws.simps(2))
    qed
  qed
qed

lemma parse_marshal:
  "printable v \<Longrightarrow> depth_ok max_depth v \<Longrightarrow> parse_json (marshal v) = Some v"
  using reads_backD [OF printable_reads_back, of v max_depth "[]" "Suc (2 * length (marshal v))"]
  by (simp add: parse_json_def)

end
