(* ===== verification/Messages.thy ===== *)
theory Messages
  imports Json
begin

text \<open>
  \<open>internal/protocol/messages.go\<close>: the signaling messages. First the decoding of a JSON
  value into Go variables as \<open>json.Unmarshal\<close> does it (a decoder takes the variable's old
  value, since \<open>null\<close> and absent members leave it alone); then the message types, the
  envelope, \<open>Encode\<close> and \<open>Decode\<close>, and each payload as a record with its JSON form and its
  field decoders. A \<open>json.RawMessage\<close> is represented by the value its text spells.
\<close>

section \<open>Decoding into Go variables\<close>

type_synonym 'a decoder = "json \<Rightarrow> 'a \<Rightarrow> 'a option"

definition dec_string :: "string decoder" where
  "dec_string v old = (case v of JNull \<Rightarrow> Some old | JStr s \<Rightarrow> Some s | _ \<Rightarrow> None)"

definition dec_bool :: "bool decoder" where
  "dec_bool v old = (case v of JNull \<Rightarrow> Some old | JBool b \<Rightarrow> Some b | _ \<Rightarrow> None)"

text \<open>\<open>strconv.ParseInt\<close> of a number literal.\<close>

definition parse_int :: "string \<Rightarrow> int option" where
  "parse_int l =
     (let (neg, ds) = (case l of c # t \<Rightarrow> if c = CHR ''-'' then (True, t) else (False, l) | [] \<Rightarrow> (False, []));
          i = (if neg then - int (digits_value ds) else int (digits_value ds))
      in if ds \<noteq> [] \<and> list_all is_digit ds \<and> - (2 ^ 63) \<le> i \<and> i < 2 ^ 63 then Some i else None)"

definition dec_int64 :: "int decoder" where
  "dec_int64 v old = (case v of JNull \<Rightarrow> Some old | JNum l \<Rightarrow> parse_int l | _ \<Rightarrow> None)"

text \<open>A slice of strings; nil is \<open>None\<close>. Each element is decoded onto the one there was.\<close>

fun dec_elems :: "json list \<Rightarrow> string list \<Rightarrow> string list option" where
  "dec_elems [] olds = Some []"
| "dec_elems (v # vs) olds =
     (case (dec_string v (case olds of [] \<Rightarrow> [] | x # _ \<Rightarrow> x), dec_elems vs (tl olds)) of
        (Some s, Some ss) \<Rightarrow> Some (s # ss) | _ \<Rightarrow> None)"

definition dec_strings :: "string list option decoder" where
  "dec_strings v old =
     (case v of
        JNull \<Rightarrow> Some None
      | JArr vs \<Rightarrow> map_option Some (dec_elems vs (case old of None \<Rightarrow> [] | Some xs \<Rightarrow> xs))
      | _ \<Rightarrow> None)"

text \<open>
  Names are compared up to case, by simple Unicode folding. Of the characters outside
  ASCII only U+017F and U+212A fold to an ASCII letter.
\<close>

fun fold_name :: "string \<Rightarrow> string" where
  "fold_name [] = []"
| "fold_name (a # t) =
     (if code a = 0xC5 \<and> t \<noteq> [] \<and> code (hd t) = 0xBF then CHR ''S'' # fold_name (tl t)
      else if code a = 0xE2 \<and> 2 \<le> length t \<and> code (hd t) = 0x84 \<and> code (hd (tl t)) = 0xAA
        then CHR ''K'' # fold_name (tl (tl t))
      else if 97 \<le> code a \<and> code a \<le> 122 then char_of (code a - 32) # fold_name t
      else a # fold_name t)"

type_synonym 'a field_decoders = "(string \<times> 'a decoder) list"

definition find_field :: "'a field_decoders \<Rightarrow> string \<Rightarrow> 'a decoder option" where
  "find_field fs k =
     (case map_of fs k of
        Some d \<Rightarrow> Some d
      | None \<Rightarrow> map_of (map (\<lambda>(n, d). (fold_name n, d)) fs) (fold_name k))"

text \<open>Every member is decoded; a type error in one of them is an error of the whole.\<close>

fun dec_members :: "'a field_decoders \<Rightarrow> (string \<times> json) list \<Rightarrow> 'a \<Rightarrow> 'a option" where
  "dec_members fs [] x = Some x"
| "dec_members fs ((k, v) # ms) x =
     (case find_field fs k of
        None \<Rightarrow> dec_members fs ms x
      | Some d \<Rightarrow> (case d v x of None \<Rightarrow> None | Some y \<Rightarrow> dec_members fs ms y))"

definition dec_struct :: "'a field_decoders \<Rightarrow> 'a decoder" where
  "dec_struct fs v x = (case v of JNull \<Rightarrow> Some x | JObj ms \<Rightarrow> dec_members fs ms x | _ \<Rightarrow> None)"

text \<open>A field of a struct: how to get it and how to set it.\<close>

definition dec_field :: "('a \<Rightarrow> 'b) \<Rightarrow> ('b \<Rightarrow> 'a \<Rightarrow> 'a) \<Rightarrow> 'b decoder \<Rightarrow> 'a decoder" where
  "dec_field get put d v x = map_option (\<lambda>y. put y x) (d v (get x))"

text \<open>\<open>json.Unmarshal(text, &x)\<close>; nil and malformed texts are errors.\<close>

definition unmarshal :: "'a field_decoders \<Rightarrow> string \<Rightarrow> 'a \<Rightarrow> 'a option" where
  "unmarshal fs raw x = (case parse_json raw of None \<Rightarrow> None | Some v \<Rightarrow> dec_struct fs v x)"

definition unmarshal_raw :: "'a field_decoders \<Rightarrow> json option \<Rightarrow> 'a \<Rightarrow> 'a option" where
  "unmarshal_raw fs raw x = (case raw of None \<Rightarrow> None | Some v \<Rightarrow> dec_struct fs v x)"

section \<open>Message types\<close>

definition MsgTypeRegister :: string where "MsgTypeRegister = ''register''"
definition MsgTypeRegisterAck :: string where "MsgTypeRegisterAck = ''register_ack''"
definition MsgTypeHeartbeat :: string where "MsgTypeHeartbeat = ''heartbeat''"
definition MsgTypeHeartbeatAck :: string where "MsgTypeHeartbeatAck = ''heartbeat_ack''"
definition MsgTypeConnectRequest :: string where "MsgTypeConnectRequest = ''connect_request''"
definition MsgTypeConnectResponse :: string where "MsgTypeConnectResponse = ''connect_response''"
definition MsgTypeDisconnect :: string where "MsgTypeDisconnect = ''disconnect''"
definition MsgTypeSDPOffer :: string where "MsgTypeSDPOffer = ''sdp_offer''"
definition MsgTypeSDPAnswer :: string where "MsgTypeSDPAnswer = ''sdp_answer''"
definition MsgTypeICECandidate :: string where "MsgTypeICECandidate = ''ice_candidate''"
definition MsgTypeTransportNegotiate :: string where "MsgTypeTransportNegotiate = ''transport_negotiate''"
definition MsgTypeTransportReady :: string where "MsgTypeTransportReady = ''transport_ready''"
definition MsgTypeError :: string where "MsgTypeError = ''error''"

definition TransportWebRTC :: string where "TransportWebRTC = ''webrtc''"
definition TransportQUIC :: string where "TransportQUIC = ''quic''"
definition TransportRelay :: string where "TransportRelay = ''relay''"
definition PlatformLinux :: string where "PlatformLinux = ''linux''"
definition PlatformWindows :: string where "PlatformWindows = ''windows''"
definition PlatformDarwin :: string where "PlatformDarwin = ''darwin''"

lemmas msg_types = MsgTypeRegister_def MsgTypeRegisterAck_def MsgTypeHeartbeat_def MsgTypeHeartbeatAck_def
  MsgTypeConnectRequest_def MsgTypeConnectResponse_def MsgTypeDisconnect_def MsgTypeSDPOffer_def
  MsgTypeSDPAnswer_def MsgTypeICECandidate_def MsgTypeTransportNegotiate_def MsgTypeTransportReady_def
  MsgTypeError_def

section \<open>The envelope\<close>

record SignalMessage =
  sm_Type :: string
  sm_Data :: "json option"   \<comment> \<open>\<open>None\<close>: nil\<close>

definition dec_raw :: "json option decoder" where
  "dec_raw v old = Some (Some v)"

definition envelope_fields :: "SignalMessage field_decoders" where
  "envelope_fields =
     [(''type'', dec_field sm_Type (\<lambda>y. sm_Type_update (\<lambda>_. y)) dec_string),
      (''data'', dec_field sm_Data (\<lambda>y. sm_Data_update (\<lambda>_. y)) dec_raw)]"

definition no_message :: SignalMessage where
  "no_message = \<lparr>sm_Type = [], sm_Data = None\<rparr>"

text \<open>\<open>Encode\<close>: the payload has been printed already, and its text is never empty.\<close>

definition Encode :: "string \<Rightarrow> json \<Rightarrow> string" where
  "Encode msgType payload = marshal (JObj [(''type'', JStr msgType), (''data'', payload)])"

datatype decode_error = UnmarshalEnvelope | UnmarshalPayload

definition Decode :: "'a field_decoders option \<Rightarrow> string \<Rightarrow> 'a \<Rightarrow> decode_error + (string \<times> 'a)" where
  "Decode payload raw x =
     (case unmarshal envelope_fields raw no_message of
        None \<Rightarrow> Inl UnmarshalEnvelope
      | Some envelope \<Rightarrow>
          (case (payload, sm_Data envelope) of
             (Some fs, Some d) \<Rightarrow>
               (case dec_struct fs d x of
                  None \<Rightarrow> Inl UnmarshalPayload
                | Some y \<Rightarrow> Inr (sm_Type envelope, y))
           | _ \<Rightarrow> Inr (sm_Type envelope, x)))"

section \<open>Payloads\<close>

text \<open>
  Each payload: the record, its JSON form (fields in order, \<open>omitempty\<close> ones left out when
  empty), its field decoders, its zero value, and the values that survive the trip (strings
  of well-formed UTF-8, integers of 64 bits).
\<close>

definition int64 :: "int \<Rightarrow> bool" where
  "int64 i \<longleftrightarrow> - (2 ^ 63) \<le> i \<and> i < 2 ^ 63"

definition strings_json :: "string list option \<Rightarrow> json" where
  "strings_json x = (case x of None \<Rightarrow> JNull | Some ss \<Rightarrow> JArr (map JStr ss))"

definition strings_ok :: "string list option \<Rightarrow> bool" where
  "strings_ok x \<longleftrightarrow> (case x of None \<Rightarrow> True | Some ss \<Rightarrow> list_all valid_utf8 ss)"

record RegisterPayload =
  reg_DeviceID :: string
  reg_DeviceName :: string
  reg_Platform :: string
  reg_Version :: string
  reg_PublicKey :: string

definition reg_json :: "RegisterPayload \<Rightarrow> json" where
  "reg_json p = JObj
    ([(''device_id'', JStr (reg_DeviceID p)),
     (''device_name'', JStr (reg_DeviceName p)),
     (''platform'', JStr (reg_Platform p)),
     (''version'', JStr (reg_Version p)),
     (''public_key'', JStr (reg_PublicKey p))])"

definition reg_fields :: "RegisterPayload field_decoders" where
  "reg_fields = [(''device_id'', dec_field reg_DeviceID (\<lambda>y. reg_DeviceID_update (\<lambda>_. y)) dec_string),
     (''device_name'', dec_field reg_DeviceName (\<lambda>y. reg_DeviceName_update (\<lambda>_. y)) dec_string),
     (''platform'', dec_field reg_Platform (\<lambda>y. reg_Platform_update (\<lambda>_. y)) dec_string),
     (''version'', dec_field reg_Version (\<lambda>y. reg_Version_update (\<lambda>_. y)) dec_string),
     (''public_key'', dec_field reg_PublicKey (\<lambda>y. reg_PublicKey_update (\<lambda>_. y)) dec_string)]"

definition reg_zero :: RegisterPayload where
  "reg_zero = \<lparr>reg_DeviceID = [], reg_DeviceName = [], reg_Platform = [], reg_Version = [], reg_PublicKey = []\<rparr>"

definition reg_ok :: "RegisterPayload \<Rightarrow> bool" where
  "reg_ok p \<longleftrightarrow> valid_utf8 (reg_DeviceID p)
     \<and> valid_utf8 (reg_DeviceName p)
     \<and> valid_utf8 (reg_Platform p)
     \<and> valid_utf8 (reg_Version p)
     \<and> valid_utf8 (reg_PublicKey p)"

record RegisterAckPayload =
  rack_Token :: string
  rack_ExpiresAt :: int

definition rack_json :: "RegisterAckPayload \<Rightarrow> json" where
  "rack_json p = JObj
    ([(''token'', JStr (rack_Token p)),
     (''expires_at'', JNum (show_int (rack_ExpiresAt p)))])"

definition rack_fields :: "RegisterAckPayload field_decoders" where
  "rack_fields = [(''token'', dec_field rack_Token (\<lambda>y. rack_Token_update (\<lambda>_. y)) dec_string),
     (''expires_at'', dec_field rack_ExpiresAt (\<lambda>y. rack_ExpiresAt_update (\<lambda>_. y)) dec_int64)]"

definition rack_zero :: RegisterAckPayload where
  "rack_zero = \<lparr>rack_Token = [], rack_ExpiresAt = 0\<rparr>"

definition rack_ok :: "RegisterAckPayload \<Rightarrow> bool" where
  "rack_ok p \<longleftrightarrow> valid_utf8 (rack_Token p)
     \<and> int64 (rack_ExpiresAt p)"

record HeartbeatPayload =
  hb_Timestamp :: int

definition hb_json :: "HeartbeatPayload \<Rightarrow> json" where
  "hb_json p = JObj
    ([(''timestamp'', JNum (show_int (hb_Timestamp p)))])"

definition hb_fields :: "HeartbeatPayload field_decoders" where
  "hb_fields = [(''timestamp'', dec_field hb_Timestamp (\<lambda>y. hb_Timestamp_update (\<lambda>_. y)) dec_int64)]"

definition hb_zero :: HeartbeatPayload where
  "hb_zero = \<lparr>hb_Timestamp = 0\<rparr>"

definition hb_ok :: "HeartbeatPayload \<Rightarrow> bool" where
  "hb_ok p \<longleftrightarrow> int64 (hb_Timestamp p)"

record HeartbeatAckPayload =
  hback_ServerTime :: int

definition hback_json :: "HeartbeatAckPayload \<Rightarrow> json" where
  "hback_json p = JObj
    ([(''server_time'', JNum (show_int (hback_ServerTime p)))])"

definition hback_fields :: "HeartbeatAckPayload field_decoders" where
  "hback_fields = [(''server_time'', dec_field hback_ServerTime (\<lambda>y. hback_ServerTime_update (\<lambda>_. y)) dec_int64)]"

definition hback_zero :: HeartbeatAckPayload where
  "hback_zero = \<lparr>hback_ServerTime = 0\<rparr>"

definition hback_ok :: "HeartbeatAckPayload \<Rightarrow> bool" where
  "hback_ok p \<longleftrightarrow> int64 (hback_ServerTime p)"

record ConnectRequestPayload =
  creq_SessionID :: string
  creq_DeviceID :: string
  creq_Protocols :: "string list option"

definition creq_json :: "ConnectRequestPayload \<Rightarrow> json" where
  "creq_json p = JObj
    ([(''session_id'', JStr (creq_SessionID p)),
     (''device_id'', JStr (creq_DeviceID p)),
     (''protocols'', strings_json (creq_Protocols p))])"

definition creq_fields :: "ConnectRequestPayload field_decoders" where
  "creq_fields = [(''session_id'', dec_field creq_SessionID (\<lambda>y. creq_SessionID_update (\<lambda>_. y)) dec_string),
     (''device_id'', dec_field creq_DeviceID (\<lambda>y. creq_DeviceID_update (\<lambda>_. y)) dec_string),
     (''protocols'', dec_field creq_Protocols (\<lambda>y. creq_Protocols_update (\<lambda>_. y)) dec_strings)]"

definition creq_zero :: ConnectRequestPayload where
  "creq_zero = \<lparr>creq_SessionID = [], creq_DeviceID = [], creq_Protocols = None\<rparr>"

definition creq_ok :: "ConnectRequestPayload \<Rightarrow> bool" where
  "creq_ok p \<longleftrightarrow> valid_utf8 (creq_SessionID p)
     \<and> valid_utf8 (creq_DeviceID p)
     \<and> strings_ok (creq_Protocols p)"

record ConnectResponsePayload =
  cresp_SessionID :: string
  cresp_Accepted :: bool
  cresp_Reason :: string

definition cresp_json :: "ConnectResponsePayload \<Rightarrow> json" where
  "cresp_json p = JObj
    ([(''session_id'', JStr (cresp_SessionID p)),
     (''accepted'', JBool (cresp_Accepted p))]
     @ (if cresp_Reason p = [] then [] else [(''reason'', JStr (cresp_Reason p))]))"

definition cresp_fields :: "ConnectResponsePayload field_decoders" where
  "cresp_fields = [(''session_id'', dec_field cresp_SessionID (\<lambda>y. cresp_SessionID_update (\<lambda>_. y)) dec_string),
     (''accepted'', dec_field cresp_Accepted (\<lambda>y. cresp_Accepted_update (\<lambda>_. y)) dec_bool),
     (''reason'', dec_field cresp_Reason (\<lambda>y. cresp_Reason_update (\<lambda>_. y)) dec_string)]"

definition cresp_zero :: ConnectResponsePayload where
  "cresp_zero = \<lparr>cresp_SessionID = [], cresp_Accepted = False, cresp_Reason = []\<rparr>"

definition cresp_ok :: "ConnectResponsePayload \<Rightarrow> bool" where
  "cresp_ok p \<longleftrightarrow> valid_utf8 (cresp_SessionID p)
     \<and> valid_utf8 (cresp_Reason p)"

record DisconnectPayload =
  disc_SessionID :: string
  disc_Reason :: string

definition disc_json :: "DisconnectPayload \<Rightarrow> json" where
  "disc_json p = JObj
    ([(''session_id'', JStr (disc_SessionID p))]
     @ (if disc_Reason p = [] then [] else [(''reason'', JStr (disc_Reason p))]))"

definition disc_fields :: "DisconnectPayload field_decoders" where
  "disc_fields = [(''session_id'', dec_field disc_SessionID (\<lambda>y. disc_SessionID_update (\<lambda>_. y)) dec_string),
     (''reason'', dec_field disc_Reason (\<lambda>y. disc_Reason_update (\<lambda>_. y)) dec_string)]"

definition disc_zero :: DisconnectPayload where
  "disc_zero = \<lparr>disc_SessionID = [], disc_Reason = []\<rparr>"

definition disc_ok :: "DisconnectPayload \<Rightarrow> bool" where
  "disc_ok p \<longleftrightarrow> valid_utf8 (disc_SessionID p)
     \<and> valid_utf8 (disc_Reason p)"

record SDPOfferPayload =
  offer_SessionID :: string
  offer_SDP :: string

definition offer_json :: "SDPOfferPayload \<Rightarrow> json" where
  "offer_json p = JObj
    ([(''session_id'', JStr (offer_SessionID p)),
     (''sdp'', JStr (offer_SDP p))])"

definition offer_fields :: "SDPOfferPayload field_decoders" where
  "offer_fields = [(''session_id'', dec_field offer_SessionID (\<lambda>y. offer_SessionID_update (\<lambda>_. y)) dec_string),
     (''sdp'', dec_field offer_SDP (\<lambda>y. offer_SDP_update (\<lambda>_. y)) dec_string)]"

definition offer_zero :: SDPOfferPayload where
  "offer_zero = \<lparr>offer_SessionID = [], offer_SDP = []\<rparr>"

definition offer_ok :: "SDPOfferPayload \<Rightarrow> bool" where
  "offer_ok p \<longleftrightarrow> valid_utf8 (offer_SessionID p)
     \<and> valid_utf8 (offer_SDP p)"

record SDPAnswerPayload =
  answer_SessionID :: string
  answer_SDP :: string

definition answer_json :: "SDPAnswerPayload \<Rightarrow> json" where
  "answer_json p = JObj
    ([(''session_id'', JStr (answer_SessionID p)),
     (''sdp'', JStr (answer_SDP p))])"

definition answer_fields :: "SDPAnswerPayload field_decoders" where
  "answer_fields = [(''session_id'', dec_field answer_SessionID (\<lambda>y. answer_SessionID_update (\<lambda>_. y)) dec_string),
     (''sdp'', dec_field answer_SDP (\<lambda>y. answer_SDP_update (\<lambda>_. y)) dec_string)]"

definition answer_zero :: SDPAnswerPayload where
  "answer_zero = \<lparr>answer_SessionID = [], answer_SDP = []\<rparr>"

definition answer_ok :: "SDPAnswerPayload \<Rightarrow> bool" where
  "answer_ok p \<longleftrightarrow> valid_utf8 (answer_SessionID p)
     \<and> valid_utf8 (answer_SDP p)"

record ICECandidatePayload =
  ice_SessionID :: string
  ice_Candidate :: string

definition ice_json :: "ICECandidatePayload \<Rightarrow> json" where
  "ice_json p = JObj
    ([(''session_id'', JStr (ice_SessionID p)),
     (''candidate'', JStr (ice_Candidate p))])"

definition ice_fields :: "ICECandidatePayload field_decoders" where
  "ice_fields = [(''session_id'', dec_field ice_SessionID (\<lambda>y. ice_SessionID_update (\<lambda>_. y)) dec_string),
     (''candidate'', dec_field ice_Candidate (\<lambda>y. ice_Candidate_update (\<lambda>_. y)) dec_string)]"

definition ice_zero :: ICECandidatePayload where
  "ice_zero = \<lparr>ice_SessionID = [], ice_Candidate = []\<rparr>"

definition ice_ok :: "ICECandidatePayload \<Rightarrow> bool" where
  "ice_ok p \<longleftrightarrow> valid_utf8 (ice_SessionID p)
     \<and> valid_utf8 (ice_Candidate p)"

record TransportNegotiatePayload =
  tn_SessionID :: string
  tn_Mode :: string
  tn_RelayEndpoint :: string

definition tn_json :: "TransportNegotiatePayload \<Rightarrow> json" where
  "tn_json p = JObj
    ([(''session_id'', JStr (tn_SessionID p)),
     (''mode'', JStr (tn_Mode p))]
     @ (if tn_RelayEndpoint p = [] then [] else [(''relay_endpoint'', JStr (tn_RelayEndpoint p))]))"

definition tn_fields :: "TransportNegotiatePayload field_decoders" where
  "tn_fields = [(''session_id'', dec_field tn_SessionID (\<lambda>y. tn_SessionID_update (\<lambda>_. y)) dec_string),
     (''mode'', dec_field tn_Mode (\<lambda>y. tn_Mode_update (\<lambda>_. y)) dec_string),
     (''relay_endpoint'', dec_field tn_RelayEndpoint (\<lambda>y. tn_RelayEndpoint_update (\<lambda>_. y)) dec_string)]"

definition tn_zero :: TransportNegotiatePayload where
  "tn_zero = \<lparr>tn_SessionID = [], tn_Mode = [], tn_RelayEndpoint = []\<rparr>"

definition tn_ok :: "TransportNegotiatePayload \<Rightarrow> bool" where
  "tn_ok p \<longleftrightarrow> valid_utf8 (tn_SessionID p)
     \<and> valid_utf8 (tn_Mode p)
     \<and> valid_utf8 (tn_RelayEndpoint p)"

record TransportReadyPayload =
  tr_SessionID :: string
  tr_Mode :: string

definition tr_json :: "TransportReadyPayload \<Rightarrow> json" where
  "tr_json p = JObj
    ([(''session_id'', JStr (tr_SessionID p)),
     (''mode'', JStr (tr_Mode p))])"

definition tr_fields :: "TransportReadyPayload field_decoders" where
  "tr_fields = [(''session_id'', dec_field tr_SessionID (\<lambda>y. tr_SessionID_update (\<lambda>_. y)) dec_string),
     (''mode'', dec_field tr_Mode (\<lambda>y. tr_Mode_update (\<lambda>_. y)) dec_string)]"

definition tr_zero :: TransportReadyPayload where
  "tr_zero = \<lparr>tr_SessionID = [], tr_Mode = []\<rparr>"

definition tr_ok :: "TransportReadyPayload \<Rightarrow> bool" where
  "tr_ok p \<longleftrightarrow> valid_utf8 (tr_SessionID p)
     \<and> valid_utf8 (tr_Mode p)"

record ErrorPayload =
  err_Code :: string
  err_Message :: string

definition err_json :: "ErrorPayload \<Rightarrow> json" where
  "err_json p = JObj
    ([(''code'', JStr (err_Code p)),
     (''message'', JStr (err_Message p))])"

definition err_fields :: "ErrorPayload field_decoders" where
  "err_fields = [(''code'', dec_field err_Code (\<lambda>y. err_Code_update (\<lambda>_. y)) dec_string),
     (''message'', dec_field err_Message (\<lambda>y. err_Message_update (\<lambda>_. y)) dec_string)]"

definition err_zero :: ErrorPayload where
  "err_zero = \<lparr>err_Code = [], err_Message = []\<rparr>"

definition err_ok :: "ErrorPayload \<Rightarrow> bool" where
  "err_ok p \<longleftrightarrow> valid_utf8 (err_Code p)
     \<and> valid_utf8 (err_Message p)"

text \<open>\<open>time.Now().UnixMilli()\<close>, the clock read in nanoseconds since the epoch.\<close>

definition CurrentTimestampMillis :: "int \<Rightarrow> int" where
  "CurrentTimestampMillis now = now div 1000000"

section \<open>Round trips\<close>

lemma depth_ok_mono: "depth_ok d v \<Longrightarrow> d \<le> e \<Longrightarrow> depth_ok e v"
proof (induction v arbitrary: d e)
  case (JArr vs)
  have "depth_ok (e - 1) v" if v: "v \<in> set vs" for v
  proof (rule JArr.IH [OF v])
    show "depth_ok (d - 1) v" using JArr.prems(1) v by (simp add: list_all_iff)
    show "d - 1 \<le> e - 1" using JArr.prems(2) by simp
  qed
  moreover have "0 < e" using JArr.prems by simp
  ultimately show ?case by (simp add: list_all_iff)
next
  case (JObj ms)
  have "depth_ok (e - 1) v" if v: "(k, v) \<in> set ms" for k v
  proof (rule JObj.IH [OF v])
    show "v \<in> Basic_BNFs.snds (k, v)" by simp
    show "depth_ok (d - 1) v" using JObj.prems(1) v by (auto simp: list_all_iff)
    show "d - 1 \<le> e - 1" using JObj.prems(2) by simp
  qed
  moreover have "0 < e" using JObj.prems by simp
  ultimately show ?case by (auto simp: list_all_iff)
qed auto

lemma ascii_valid: "list_all (\<lambda>c. code c < 0x80) s \<Longrightarrow> valid_utf8 s"
  unfolding valid_utf8_def by (induction s) (simp_all add: rune_len_ascii)

lemma parse_show_int [simp]: "int64 i \<Longrightarrow> parse_int (show_int i) = Some i"
proof -
  assume i: "int64 i"
  have d: "list_all is_digit (show_nat n)" for n using show_nat_digits by (auto simp: list_all_iff)
  show ?thesis
  proof (cases "i < 0")
    case True
    with i d [of "nat (- i)"] show ?thesis by (simp add: parse_int_def show_int_def int64_def)
  next
    case False
    obtain c t where ct: "show_nat (nat i) = c # t" by (cases "show_nat (nat i)") auto
    have "c \<noteq> CHR ''-''" using d [of "nat i"] ct by (auto simp: is_digit_def)
    with False i d [of "nat i"] ct digits_value_show_nat [of "nat i"] show ?thesis
      by (simp add: parse_int_def show_int_def int64_def)
  qed
qed

lemma dec_elems_map: "dec_elems (map JStr ss) [] = Some ss"
  by (induction ss) (simp_all add: dec_string_def)

lemma dec_strings_json: "dec_strings (strings_json x) None = Some x"
  by (auto simp: dec_strings_def strings_json_def dec_elems_map split: option.split)

lemma printable_strings: "strings_ok x \<Longrightarrow> printable (strings_json x)"
  by (auto simp: strings_ok_def strings_json_def list_all_iff split: option.split)

lemma depth_strings: "0 < d \<Longrightarrow> depth_ok d (strings_json x)"
  by (auto simp: strings_json_def list_all_iff split: option.split)

lemmas payload_simps = dec_struct_def find_field_def dec_field_def dec_string_def dec_bool_def dec_int64_def
  dec_strings_json printable_strings depth_strings ascii_valid

text \<open>
  The interface between the envelope and a payload: the payload prints as an object of
  printable members within the nesting limit, and decoding them onto the zero value
  gives it back. From it: \<open>Decode\<close> undoes \<open>Encode\<close>.
\<close>

locale payload_codec =
  fixes to_json :: "'a \<Rightarrow> json" and fields :: "'a field_decoders" and zero :: 'a and ok :: "'a \<Rightarrow> bool"
  assumes printable_json: "ok p \<Longrightarrow> printable (to_json p)"
    and depth_json: "depth_ok 2 (to_json p)"
    and dec_json: "ok p \<Longrightarrow> dec_struct fields (to_json p) zero = Some p"
begin

lemma envelope_Encode:
  assumes t: "valid_utf8 t" and p: "ok p"
  shows "unmarshal envelope_fields (Encode t (to_json p)) no_message = Some \<lparr>sm_Type = t, sm_Data = Some (to_json p)\<rparr>"
proof -
  have "depth_ok d v" if "depth_ok 2 v" "2 \<le> d" for d v
    by (rule depth_ok_mono [OF that])
  then have "depth_ok 9999 (to_json p)" using depth_json by simp
  then have "parse_json (Encode t (to_json p)) = Some (JObj [(''type'', JStr t), (''data'', to_json p)])"
    unfolding Encode_def using printable_json [OF p] t
    by (intro parse_marshal) (simp_all add: max_depth_def ascii_valid)
  then show ?thesis
    by (simp add: unmarshal_def dec_struct_def envelope_fields_def find_field_def dec_field_def
        dec_string_def dec_raw_def no_message_def)
qed

lemma raw_json: "ok p \<Longrightarrow> unmarshal_raw fields (Some (to_json p)) zero = Some p"
  by (simp add: unmarshal_raw_def dec_json)

lemma Decode_Encode:
  "valid_utf8 t \<Longrightarrow> ok p \<Longrightarrow> Decode (Some fields) (Encode t (to_json p)) zero = Inr (t, p)"
  by (simp add: Decode_def envelope_Encode dec_json)

end

interpretation reg: payload_codec reg_json reg_fields reg_zero reg_ok
  by unfold_locales (auto simp: reg_json_def reg_fields_def reg_zero_def reg_ok_def payload_simps)

interpretation rack: payload_codec rack_json rack_fields rack_zero rack_ok
  by unfold_locales (auto simp: rack_json_def rack_fields_def rack_zero_def rack_ok_def payload_simps)

interpretation hb: payload_codec hb_json hb_fields hb_zero hb_ok
  by unfold_locales (auto simp: hb_json_def hb_fields_def hb_zero_def hb_ok_def payload_simps)

interpretation hback: payload_codec hback_json hback_fields hback_zero hback_ok
  by unfold_locales (auto simp: hback_json_def hback_fields_def hback_zero_def hback_ok_def payload_simps)

interpretation creq: payload_codec creq_json creq_fields creq_zero creq_ok
  by unfold_locales (auto simp: creq_json_def creq_fields_def creq_zero_def creq_ok_def payload_simps)

interpretation cresp: payload_codec cresp_json cresp_fields cresp_zero cresp_ok
  by unfold_locales (auto simp: cresp_json_def cresp_fields_def cresp_zero_def cresp_ok_def payload_simps)

interpretation disc: payload_codec disc_json disc_fields disc_zero disc_ok
  by unfold_locales (auto simp: disc_json_def disc_fields_def disc_zero_def disc_ok_def payload_simps)

interpretation offer: payload_codec offer_json offer_fields offer_zero offer_ok
  by unfold_locales (auto simp: offer_json_def offer_fields_def offer_zero_def offer_ok_def payload_simps)

interpretation answer: payload_codec answer_json answer_fields answer_zero answer_ok
  by unfold_locales (auto simp: answer_json_def answer_fields_def answer_zero_def answer_ok_def payload_simps)

interpretation ice: payload_codec ice_json ice_fields ice_zero ice_ok
  by unfold_locales (auto simp: ice_json_def ice_fields_def ice_zero_def ice_ok_def payload_simps)

interpretation tn: payload_codec tn_json tn_fields tn_zero tn_ok
  by unfold_locales (auto simp: tn_json_def tn_fields_def tn_zero_def tn_ok_def payload_simps)

interpretation tr: payload_codec tr_json tr_fields tr_zero tr_ok
  by unfold_locales (auto simp: tr_json_def tr_fields_def tr_zero_def tr_ok_def payload_simps)

interpretation err: payload_codec err_json err_fields err_zero err_ok
  by unfold_locales (auto simp: err_json_def err_fields_def err_zero_def err_ok_def payload_simps)

text \<open>
  Reading JSON terminates on every input: the parser never runs out of the fuel it is
  given, at any nesting depth.
\<close>

lemma parse_json_total:
  "parse_value (Suc (2 * length s)) d s \<noteq> PFuel
   \<and> (parse_json s = None \<longleftrightarrow>
        parse_value (Suc (2 * length s)) max_depth s = PError
        \<or> (\<exists>v c r. parse_value (Suc (2 * length s)) max_depth s = POk v (c # r) \<and> skip_ws (c # r) \<noteq> []))
   \<and> (\<forall>v r. parse_value (Suc (2 * length s)) d s = POk v r \<longrightarrow> length r < length s)"
proof -
  have f: "parse_value (Suc (2 * length s)) d s \<noteq> PFuel" for d using parse_fuel [of "Suc (2 * length s)"] by blast
  have sh: "length r < length s" if "parse_value (Suc (2 * length s)) d s = POk v r" for v r
    by (rule parse_value_shorter [OF that])
  show ?thesis
  proof (intro conjI allI impI)
    show "parse_json s = None \<longleftrightarrow> parse_value (Suc (2 * length s)) max_depth s = PError
        \<or> (\<exists>v c r. parse_value (Suc (2 * length s)) max_depth s = POk v (c # r) \<and> skip_ws (c # r) \<noteq> [])"
    proof (cases "parse_value (Suc (2 * length s)) max_depth s")
      case (POk v r)
      then show ?thesis by (cases r) (auto simp: parse_json_def)
    qed (use f [of max_depth] in \<open>auto simp: parse_json_def\<close>)
  qed (use f sh in auto)
qed

lemma find_envelope:
  "find_field envelope_fields k =
     (if fold_name k = ''TYPE'' then Some (dec_field sm_Type (\<lambda>y. sm_Type_update (\<lambda>_. y)) dec_string)
      else if fold_name k = ''DATA'' then Some (dec_field sm_Data (\<lambda>y. sm_Data_update (\<lambda>_. y)) dec_raw)
      else None)"
proof -
  have "fold_name ''type'' = ''TYPE''" "fold_name ''data'' = ''DATA''" by code_simp+
  then show ?thesis by (auto simp: find_field_def envelope_fields_def)
qed

text \<open>A member called \<open>type\<close>, in whatever case, that is neither a string nor null.\<close>

definition bad_type :: "string \<times> json \<Rightarrow> bool" where
  "bad_type m \<longleftrightarrow> fold_name (fst m) = ''TYPE'' \<and> snd m \<noteq> JNull \<and> (\<forall>t. snd m \<noteq> JStr t)"

lemma dec_envelope_fails: "dec_members envelope_fields ms x = None \<longleftrightarrow> list_ex bad_type ms"
proof (induction ms arbitrary: x)
  case (Cons m ms)
  obtain k v where m: "m = (k, v)" by fastforce
  show ?case using Cons.IH
    by (cases v) (auto simp: m find_envelope bad_type_def dec_field_def dec_string_def dec_raw_def)
qed simp

section \<open>Properties\<close>

text \<open>
  C6: what one side encodes the other decodes. For every message type and every payload
  whose strings are well-formed UTF-8 and whose integers have 64 bits, \<open>Decode\<close> applied to
  what \<open>Encode\<close> printed returns the type and the payload: all thirteen payloads,
  omitted empty fields and nil slices included, whatever the strings contain (quotes,
  control characters, HTML, line separators).
\<close>

theorem messages_roundtrip:
  assumes "valid_utf8 t"
  shows "(reg_ok p0 \<longrightarrow> Decode (Some reg_fields) (Encode t (reg_json p0)) reg_zero = Inr (t, p0))
    \<and> (rack_ok p1 \<longrightarrow> Decode (Some rack_fields) (Encode t (rack_json p1)) rack_zero = Inr (t, p1))
    \<and> (hb_ok p2 \<longrightarrow> Decode (Some hb_fields) (Encode t (hb_json p2)) hb_zero = Inr (t, p2))
    \<and> (hback_ok p3 \<longrightarrow> Decode (Some hback_fields) (Encode t (hback_json p3)) hback_zero = Inr (t, p3))
    \<and> (creq_ok p4 \<longrightarrow> Decode (Some creq_fields) (Encode t (creq_json p4)) creq_zero = Inr (t, p4))
    \<and> (cresp_ok p5 \<longrightarrow> Decode (Some cresp_fields) (Encode t (cresp_json p5)) cresp_zero = Inr (t, p5))
    \<and> (disc_ok p6 \<longrightarrow> Decode (Some disc_fields) (Encode t (disc_json p6)) disc_zero = Inr (t, p6))
    \<and> (offer_ok p7 \<longrightarrow> Decode (Some offer_fields) (Encode t (offer_json p7)) offer_zero = Inr (t, p7))
    \<and> (answer_ok p8 \<longrightarrow> Decode (Some answer_fields) (Encode t (answer_json p8)) answer_zero = Inr (t, p8))
    \<and> (ice_ok p9 \<longrightarrow> Decode (Some ice_fields) (Encode t (ice_json p9)) ice_zero = Inr (t, p9))
    \<and> (tn_ok p10 \<longrightarrow> Decode (Some tn_fields) (Encode t (tn_json p10)) tn_zero = Inr (t, p10))
    \<and> (tr_ok p11 \<longrightarrow> Decode (Some tr_fields) (Encode t (tr_json p11)) tr_zero = Inr (t, p11))
    \<and> (err_ok p12 \<longrightarrow> Decode (Some err_fields) (Encode t (err_json p12)) err_zero = Inr (t, p12))"
  using assms
  by (intro conjI impI reg.Decode_Encode rack.Decode_Encode hb.Decode_Encode hback.Decode_Encode creq.Decode_Encode cresp.Decode_Encode disc.Decode_Encode offer.Decode_Encode answer.Decode_Encode ice.Decode_Encode tn.Decode_Encode tr.Decode_Encode err.Decode_Encode)

theorem messages_roundtrip_witness:
  "Decode (Some creq_fields) (Encode MsgTypeConnectRequest
       (creq_json \<lparr>creq_SessionID = ''s<1>'', creq_DeviceID = ''d\<newline>'', creq_Protocols = Some [''ssh'', ''shell'']\<rparr>)) creq_zero
   = Inr (MsgTypeConnectRequest, \<lparr>creq_SessionID = ''s<1>'', creq_DeviceID = ''d\<newline>'', creq_Protocols = Some [''ssh'', ''shell'']\<rparr>)"
proof -
  let ?p = "\<lparr>creq_SessionID = ''s<1>'', creq_DeviceID = ''d\<newline>'', creq_Protocols = Some [''ssh'', ''shell'']\<rparr>"
  have "valid_utf8 MsgTypeConnectRequest" by (simp add: ascii_valid msg_types)
  moreover have "creq_ok ?p" by (simp add: creq_ok_def strings_ok_def ascii_valid)
  ultimately show ?thesis using messages_roundtrip [of MsgTypeConnectRequest] by blast
qed

text \<open>
  C22: when \<open>Decode\<close> fails. The envelope is refused exactly when the text is not JSON (the
  parser always comes to a verdict: it never runs out of fuel), is JSON but neither an object
  nor \<open>null\<close>, or has a member called \<open>type\<close>, in any case of its letters, that is neither a
  string nor \<open>null\<close>. The payload is refused exactly when the envelope has a \<open>data\<close> member
  whose last occurrence does not fit the payload. In every other case \<open>Decode\<close> succeeds,
  also without \<open>type\<close> and without \<open>data\<close>, and then the payload keeps its old value.
\<close>

theorem Decode_outcome:
  "(Decode payload raw x = Inl UnmarshalEnvelope \<longleftrightarrow>
      (case parse_json raw of
         Some JNull \<Rightarrow> False | Some (JObj ms) \<Rightarrow> list_ex bad_type ms | _ \<Rightarrow> True))
   \<and> (Decode payload raw x = Inl UnmarshalPayload \<longleftrightarrow>
        (\<exists>fs e d. payload = Some fs \<and> unmarshal envelope_fields raw no_message = Some e
           \<and> sm_Data e = Some d \<and> dec_struct fs d x = None))
   \<and> (\<forall>t y. Decode payload raw x = Inr (t, y) \<and> (payload = None \<or> parse_json raw = Some JNull) \<longrightarrow> y = x)
   \<and> parse_value (Suc (2 * length raw)) max_depth raw \<noteq> PFuel"
proof -
  have fuel: "parse_value (Suc (2 * length raw)) max_depth raw \<noteq> PFuel"
    using parse_json_total [of raw max_depth] by blast
  have env: "unmarshal envelope_fields raw no_message = None \<longleftrightarrow>
      (case parse_json raw of Some JNull \<Rightarrow> False | Some (JObj ms) \<Rightarrow> list_ex bad_type ms | _ \<Rightarrow> True)"
    by (auto simp: unmarshal_def dec_struct_def dec_envelope_fails split: option.split json.split)
  have "Decode payload raw x = Inl UnmarshalEnvelope \<longleftrightarrow> unmarshal envelope_fields raw no_message = None"
    by (auto simp: Decode_def split: option.split)
  moreover have "Decode payload raw x = Inl UnmarshalPayload \<longleftrightarrow>
      (\<exists>fs e d. payload = Some fs \<and> unmarshal envelope_fields raw no_message = Some e
           \<and> sm_Data e = Some d \<and> dec_struct fs d x = None)"
    by (auto simp: Decode_def split: option.split)
  moreover have "y = x" if "Decode payload raw x = Inr (t, y)" "payload = None \<or> parse_json raw = Some JNull" for t y
    using that by (auto simp: Decode_def unmarshal_def dec_struct_def no_message_def split: option.splits)
  ultimately show ?thesis using env fuel by (intro conjI allI impI) (simp_all only:, blast)
qed

theorem Decode_outcome_witness:
  "Decode None ''null'' hb_zero = Inr ([], hb_zero)
   \<and> Decode (Some hb_fields) ''{\"tYpe\":7}'' hb_zero = Inl UnmarshalEnvelope
   \<and> list_ex bad_type [(''tYpe'', JNum ''7'')]"
proof -
  have n: "parse_json ''null'' = Some JNull" by code_simp
  have j: "parse_json ''{\"tYpe\":7}'' = Some (JObj [(''tYpe'', JNum ''7'')])" by code_simp
  have "fold_name ''tYpe'' = ''TYPE''" by code_simp
  then have b: "list_ex bad_type [(''tYpe'', JNum ''7'')]" by (simp add: bad_type_def)
  obtain y where y: "Decode None ''null'' hb_zero = Inr ([], y)"
    by (auto simp: Decode_def unmarshal_def n dec_struct_def no_message_def)
  then have "y = hb_zero" using Decode_outcome [of None "''null''" hb_zero] by blast
  moreover have "Decode (Some hb_fields) ''{\"tYpe\":7}'' hb_zero = Inl UnmarshalEnvelope"
    using b by (subst conjunct1 [OF Decode_outcome]) (simp add: j)
  ultimately show ?thesis using y b by simp
qed

end
