(* ===== verification/Hub.thy ===== *)
theory Hub
  imports Messages
begin

text \<open>
  \<open>internal/signal/hub.go\<close>: the registry of connected clients and of their devices. Clients
  are shared by pointer between the hub, the sessions and the goroutines, so they live in a
  store addressed by references; a client's \<open>Send\<close> channel is its queue of messages and
  a flag. Sending on a closed channel, or closing it twice, is a panic: \<open>None\<close>. Each
  method holds the hub's mutex throughout and is one function of the hub.
\<close>

section \<open>Clients and channels\<close>

type_synonym client_ref = nat

definition SendBufferSize :: nat where "SendBufferSize = 256"

record client =
  cl_ID :: string
  IsAgent :: bool
  DeviceID :: string
  UserID :: string
  Send :: "string list"
  send_closed :: bool

record DeviceInfo =
  dev_ID :: string
  dev_Name :: string
  dev_Platform :: string
  dev_Version :: string
  dev_PublicKey :: string
  dev_Registered :: int
  dev_LastSeen :: int

record hub =
  clients :: "(string, client_ref) gomap"
  devices :: "(string, DeviceInfo) gomap"
  byDevice :: "(string, client_ref) gomap"
  client_at :: "client_ref \<Rightarrow> client"

definition no_client :: client where
  "no_client = \<lparr>cl_ID = [], IsAgent = False, DeviceID = [], UserID = [], Send = [], send_closed = False\<rparr>"

definition NewHub :: hub where
  "NewHub = \<lparr>clients = [], devices = [], byDevice = [], client_at = (\<lambda>_. no_client)\<rparr>"

definition set_client :: "client_ref \<Rightarrow> client \<Rightarrow> hub \<Rightarrow> hub" where
  "set_client c x h = h\<lparr>client_at := (client_at h)(c := x)\<rparr>"

text \<open>\<open>select { case c.Send <- msg: ...; default: ... }\<close>: whether the message was queued.\<close>

definition try_send :: "client_ref \<Rightarrow> string \<Rightarrow> hub \<Rightarrow> (bool \<times> hub) option" where
  "try_send c msg h =
     (let x = client_at h c
      in if send_closed x then None
         else if length (Send x) < SendBufferSize then Some (True, set_client c (x\<lparr>Send := Send x @ [msg]\<rparr>) h)
         else Some (False, h))"

definition close_send :: "client_ref \<Rightarrow> hub \<Rightarrow> hub option" where
  "close_send c h =
     (if send_closed (client_at h c) then None
      else Some (set_client c ((client_at h c)\<lparr>send_closed := True\<rparr>) h))"

section \<open>The methods\<close>

definition RegisterClient :: "client_ref \<Rightarrow> hub \<Rightarrow> hub" where
  "RegisterClient c h = h\<lparr>clients := AList.update (cl_ID (client_at h c)) c (clients h)\<rparr>"

definition UnregisterClient :: "client_ref \<Rightarrow> hub \<Rightarrow> hub option" where
  "UnregisterClient c h =
     (let x = client_at h c;
          h1 = h\<lparr>clients := AList.delete (cl_ID x) (clients h)\<rparr>;
          h2 = (if IsAgent x \<and> DeviceID x \<noteq> []
                then h1\<lparr>byDevice := AList.delete (DeviceID x) (byDevice h1), devices := AList.delete (DeviceID x) (devices h1)\<rparr>
                else h1)
      in close_send c h2)"

definition set_DeviceID :: "client_ref \<Rightarrow> string \<Rightarrow> hub \<Rightarrow> hub" where
  "set_DeviceID c d h = set_client c ((client_at h c)\<lparr>DeviceID := d\<rparr>) h"

definition RegisterDevice :: "int \<Rightarrow> client_ref \<Rightarrow> DeviceInfo \<Rightarrow> hub \<Rightarrow> hub" where
  "RegisterDevice now c info h =
     (let d = dev_ID info;
          (info1, h1) =
            (case map_of (devices h) d of
               Some existing \<Rightarrow>
                 (info\<lparr>dev_Registered := dev_Registered existing\<rparr>,
                  (case map_of (byDevice h) d of Some old \<Rightarrow> set_DeviceID old [] h | None \<Rightarrow> h))
             | None \<Rightarrow> (info\<lparr>dev_Registered := now\<rparr>, h));
          info2 = info1\<lparr>dev_LastSeen := now\<rparr>
      in set_DeviceID c d
           (h1\<lparr>devices := AList.update d info2 (devices h1), byDevice := AList.update d c (byDevice h1)\<rparr>))"

definition UpdateHeartbeat :: "int \<Rightarrow> string \<Rightarrow> hub \<Rightarrow> hub" where
  "UpdateHeartbeat now d h =
     (case map_of (devices h) d of
        Some dev \<Rightarrow> h\<lparr>devices := AList.update d (dev\<lparr>dev_LastSeen := now\<rparr>) (devices h)\<rparr>
      | None \<Rightarrow> h)"

definition FindDeviceByClient :: "client_ref \<Rightarrow> hub \<Rightarrow> DeviceInfo option" where
  "FindDeviceByClient c h =
     (if DeviceID (client_at h c) = [] then None else map_of (devices h) (DeviceID (client_at h c)))"

definition FindClientByDevice :: "string \<Rightarrow> hub \<Rightarrow> client_ref option" where
  "FindClientByDevice d h = map_of (byDevice h) d"

definition ListDevices :: "hub \<Rightarrow> DeviceInfo list" where
  "ListDevices h = map snd (devices h)"

definition RouteToDevice :: "string \<Rightarrow> string \<Rightarrow> hub \<Rightarrow> (bool \<times> hub) option" where
  "RouteToDevice d msg h =
     (case map_of (byDevice h) d of None \<Rightarrow> Some (False, h) | Some c \<Rightarrow> try_send c msg h)"

definition RouteToClient :: "string \<Rightarrow> string \<Rightarrow> hub \<Rightarrow> (bool \<times> hub) option" where
  "RouteToClient i msg h =
     (case map_of (clients h) i of None \<Rightarrow> Some (False, h) | Some c \<Rightarrow> try_send c msg h)"

end
