(* ===== verification/Signal_Session.thy ===== *)
theory Signal_Session
  imports Hub
begin

text \<open>
  \<open>internal/signal/session.go\<close>: the sessions between apps and agents. Sessions too are shared
  by pointer (between the table and the per-client lists) and live in a store. The session
  manager's methods hold its mutex throughout, but \<open>RouteToPeer\<close> looks the peer up under
  the mutex and sends after releasing it.
\<close>

type_synonym session_ref = nat

datatype SessionStatus = SessionPending | SessionAccepted | SessionRejected | SessionActive | SessionClosed

fun status_string :: "SessionStatus \<Rightarrow> string" where
  "status_string SessionPending = ''pending''"
| "status_string SessionAccepted = ''accepted''"
| "status_string SessionRejected = ''rejected''"
| "status_string SessionActive = ''active''"
| "status_string SessionClosed = ''closed''"

record signal_session =
  ses_ID :: string
  Initiator :: "client_ref option"   \<comment> \<open>\<open>None\<close>: nil\<close>
  Responder :: "client_ref option"
  ses_DeviceID :: string
  Protocols :: "string list option"
  ses_CreatedAt :: int
  Status :: SessionStatus

record session_manager =
  sessions :: "(string, session_ref) gomap"
  byClient :: "(string, session_ref list) gomap"
  session_at :: "session_ref \<Rightarrow> signal_session"
  next_session :: session_ref

definition no_session :: signal_session where
  "no_session = \<lparr>ses_ID = [], Initiator = None, Responder = None, ses_DeviceID = [], Protocols = None,
     ses_CreatedAt = 0, Status = SessionPending\<rparr>"

definition NewSessionManager :: session_manager where
  "NewSessionManager = \<lparr>sessions = [], byClient = [], session_at = (\<lambda>_. no_session), next_session = 0\<rparr>"

text \<open>\<open>sm.byClient[id]\<close>, and appending to it.\<close>

definition client_sessions :: "string \<Rightarrow> session_manager \<Rightarrow> session_ref list" where
  "client_sessions i sm = (case map_of (byClient sm) i of None \<Rightarrow> [] | Some rs \<Rightarrow> rs)"

definition add_session :: "string \<Rightarrow> session_ref \<Rightarrow> session_manager \<Rightarrow> session_manager" where
  "add_session i r sm = sm\<lparr>byClient := AList.update i (client_sessions i sm @ [r]) (byClient sm)\<rparr>"

definition set_signal_session :: "session_ref \<Rightarrow> signal_session \<Rightarrow> session_manager \<Rightarrow> session_manager" where
  "set_signal_session r x sm = sm\<lparr>session_at := (session_at sm)(r := x)\<rparr>"

text \<open>The hub is an argument where the code follows a pointer to a client for its id.\<close>

definition CreateSession ::
  "int \<Rightarrow> string \<Rightarrow> client_ref \<Rightarrow> string \<Rightarrow> string list option \<Rightarrow> hub \<Rightarrow> session_manager \<Rightarrow> session_manager" where
  "CreateSession now sid c d protocols h sm =
     (let r = next_session sm;
          x = \<lparr>ses_ID = sid, Initiator = Some c, Responder = None, ses_DeviceID = d, Protocols = protocols,
               ses_CreatedAt = now, Status = SessionPending\<rparr>
      in add_session (cl_ID (client_at h c)) r
           (sm\<lparr>session_at := (session_at sm)(r := x), next_session := Suc r,
               sessions := AList.update sid r (sessions sm)\<rparr>))"

definition AcceptSession :: "string \<Rightarrow> client_ref \<Rightarrow> hub \<Rightarrow> session_manager \<Rightarrow> bool \<times> session_manager" where
  "AcceptSession sid c h sm =
     (case map_of (sessions sm) sid of
        None \<Rightarrow> (False, sm)
      | Some r \<Rightarrow>
          (True, add_session (cl_ID (client_at h c)) r
             (set_signal_session r ((session_at sm r)\<lparr>Responder := Some c, Status := SessionAccepted\<rparr>) sm)))"

definition set_status :: "SessionStatus \<Rightarrow> string \<Rightarrow> session_manager \<Rightarrow> bool \<times> session_manager" where
  "set_status st sid sm =
     (case map_of (sessions sm) sid of
        None \<Rightarrow> (False, sm)
      | Some r \<Rightarrow> (True, set_signal_session r ((session_at sm r)\<lparr>Status := st\<rparr>) sm))"

definition RejectSession :: "string \<Rightarrow> session_manager \<Rightarrow> bool \<times> session_manager" where
  "RejectSession = set_status SessionRejected"

definition ActivateSession :: "string \<Rightarrow> session_manager \<Rightarrow> bool \<times> session_manager" where
  "ActivateSession = set_status SessionActive"

definition CloseSession :: "string \<Rightarrow> session_manager \<Rightarrow> bool \<times> session_manager" where
  "CloseSession = set_status SessionClosed"

definition GetSession :: "string \<Rightarrow> session_manager \<Rightarrow> session_ref option" where
  "GetSession sid sm = map_of (sessions sm) sid"

text \<open>\<open>GetPeer\<close>: \<open>None\<close> is the result false; the peer itself may be nil.\<close>

definition GetPeer :: "string \<Rightarrow> client_ref \<Rightarrow> hub \<Rightarrow> session_manager \<Rightarrow> client_ref option option" where
  "GetPeer sid c h sm =
     (case map_of (sessions sm) sid of
        None \<Rightarrow> None
      | Some r \<Rightarrow>
          let x = session_at sm r; i = cl_ID (client_at h c);
              is_me = (\<lambda>p. case p of None \<Rightarrow> False | Some q \<Rightarrow> cl_ID (client_at h q) = i)
          in if is_me (Initiator x) then Some (Responder x)
             else if is_me (Responder x) then Some (Initiator x)
             else None)"

text \<open>The loop of \<open>RemoveClientSessions\<close>, then the deletion of the client's list.\<close>

fun remove_sessions :: "session_ref list \<Rightarrow> session_manager \<Rightarrow> session_manager" where
  "remove_sessions [] sm = sm"
| "remove_sessions (r # rs) sm =
     remove_sessions rs
       ((set_signal_session r ((session_at sm r)\<lparr>Status := SessionClosed\<rparr>) sm)
          \<lparr>sessions := AList.delete (ses_ID (session_at sm r)) (sessions sm)\<rparr>)"

definition RemoveClientSessions :: "string \<Rightarrow> session_manager \<Rightarrow> session_manager" where
  "RemoveClientSessions i sm =
     (let sm1 = remove_sessions (client_sessions i sm) sm
      in sm1\<lparr>byClient := AList.delete i (byClient sm1)\<rparr>)"

definition ListSessions :: "session_manager \<Rightarrow> signal_session list" where
  "ListSessions sm = map (\<lambda>(i, r). session_at sm r) (sessions sm)"

text \<open>\<open>RouteToPeer\<close>: look up, then send.\<close>

definition RouteToPeer :: "string \<Rightarrow> client_ref \<Rightarrow> string \<Rightarrow> session_manager \<Rightarrow> hub \<Rightarrow> (bool \<times> hub) option" where
  "RouteToPeer sid sender data sm h =
     (case GetPeer sid sender h sm of
        Some (Some peer) \<Rightarrow> try_send peer data h
      | _ \<Rightarrow> Some (False, h))"

text \<open>
  \<open>GenerateSessionID\<close> and \<open>randomHex\<close>: the time of day, formatted, and one hexadecimal digit
  per reading of the clock's nanoseconds.
\<close>

definition randomHex :: "nat list \<Rightarrow> string" where
  "randomHex nanos = map (\<lambda>n. ''0123456789abcdef'' ! (n mod 16)) nanos"

definition GenerateSessionID :: "string \<Rightarrow> nat list \<Rightarrow> string" where
  "GenerateSessionID timestamp nanos = ''ses-'' @ timestamp @ ''-'' @ randomHex (take 4 nanos)"

end
