(* ===== verification/Signal_Handler.thy ===== *)
theory Signal_Handler
  imports Signal_Session
begin

text \<open>
  \<open>internal/signal/handler.go\<close>: the messages a client may send, from the raw text to the
  changed state. \<open>Encode\<close> cannot fail on these payloads, so a handler's error result is
  always nil and is left out; \<open>None\<close> is a panic (a send on a closed channel). The clock is
  an argument, in nanoseconds. The handlers come twice: as functions, which is what they do when no
  other goroutine runs in between; and cut into the segments between which other goroutines can
  run (each takes one lock, or sends on one channel), which is how the server runs them. The
  segments run one after the other are the function (\<open>HandleMessage_segments\<close>).
\<close>

record signal =
  hub_of :: hub
  sm_of :: session_manager

definition NewHandler :: signal where
  "NewHandler = \<lparr>hub_of = NewHub, sm_of = NewSessionManager\<rparr>"

text \<open>Send and do not care whether there was room.\<close>

definition send_best :: "client_ref \<Rightarrow> string \<Rightarrow> signal \<Rightarrow> signal option" where
  "send_best c msg w = map_option (\<lambda>(b, h). w\<lparr>hub_of := h\<rparr>) (try_send c msg (hub_of w))"

definition error_text :: "string \<Rightarrow> string \<Rightarrow> string" where
  "error_text ecode message = Encode MsgTypeError (err_json \<lparr>err_Code = ecode, err_Message = message\<rparr>)"

definition sendError :: "client_ref \<Rightarrow> string \<Rightarrow> string \<Rightarrow> signal \<Rightarrow> signal option" where
  "sendError c ecode message w = send_best c (error_text ecode message) w"

definition device_of :: "RegisterPayload \<Rightarrow> DeviceInfo" where
  "device_of reg = \<lparr>dev_ID = reg_DeviceID reg, dev_Name = reg_DeviceName reg, dev_Platform = reg_Platform reg,
     dev_Version = reg_Version reg, dev_PublicKey = reg_PublicKey reg, dev_Registered = 0, dev_LastSeen = 0\<rparr>"

definition handleRegister :: "int \<Rightarrow> client_ref \<Rightarrow> json option \<Rightarrow> signal \<Rightarrow> signal option" where
  "handleRegister now c data w =
     (case unmarshal_raw reg_fields data reg_zero of
        None \<Rightarrow> sendError c ''invalid_register'' ''invalid register payload'' w
      | Some reg \<Rightarrow>
          let w1 = (if IsAgent (client_at (hub_of w) c)
                    then w\<lparr>hub_of := RegisterDevice now c (device_of reg) (hub_of w)\<rparr> else w)
          in send_best c (Encode MsgTypeRegisterAck
               (rack_json \<lparr>rack_Token = ''token-'' @ reg_DeviceID reg, rack_ExpiresAt = 0\<rparr>)) w1)"

definition handleHeartbeat :: "int \<Rightarrow> client_ref \<Rightarrow> json option \<Rightarrow> signal \<Rightarrow> signal option" where
  "handleHeartbeat now c data w =
     (case unmarshal_raw hb_fields data hb_zero of
        None \<Rightarrow> sendError c ''invalid_heartbeat'' ''invalid heartbeat payload'' w
      | Some hb \<Rightarrow>
          send_best c (Encode MsgTypeHeartbeatAck (hback_json \<lparr>hback_ServerTime = CurrentTimestampMillis now\<rparr>))
            (w\<lparr>hub_of := UpdateHeartbeat now (DeviceID (client_at (hub_of w) c)) (hub_of w)\<rparr>))"

definition handleConnectRequest :: "int \<Rightarrow> client_ref \<Rightarrow> json option \<Rightarrow> signal \<Rightarrow> signal option" where
  "handleConnectRequest now c data w =
     (case unmarshal_raw creq_fields data creq_zero of
        None \<Rightarrow> sendError c ''invalid_connect_request'' ''invalid connect request payload'' w
      | Some req \<Rightarrow>
          let sm1 = CreateSession now (creq_SessionID req) c (creq_DeviceID req) (creq_Protocols req) (hub_of w) (sm_of w)
          in case RouteToDevice (creq_DeviceID req) (Encode MsgTypeConnectRequest (creq_json req)) (hub_of w) of
               None \<Rightarrow> None
             | Some (True, h) \<Rightarrow> Some (w\<lparr>hub_of := h, sm_of := sm1\<rparr>)
             | Some (False, h) \<Rightarrow>
                 sendError c ''device_offline'' (''device is not online: '' @ creq_DeviceID req)
                   (w\<lparr>hub_of := h, sm_of := snd (RejectSession (creq_SessionID req) sm1)\<rparr>))"

definition handleConnectResponse :: "client_ref \<Rightarrow> json option \<Rightarrow> signal \<Rightarrow> signal option" where
  "handleConnectResponse c data w =
     (case unmarshal_raw cresp_fields data cresp_zero of
        None \<Rightarrow> sendError c ''invalid_connect_response'' ''invalid connect response payload'' w
      | Some resp \<Rightarrow>
          let sm1 = snd (if cresp_Accepted resp then AcceptSession (cresp_SessionID resp) c (hub_of w) (sm_of w)
                         else RejectSession (cresp_SessionID resp) (sm_of w))
          in case RouteToPeer (cresp_SessionID resp) c (Encode MsgTypeConnectResponse (cresp_json resp)) sm1 (hub_of w) of
               None \<Rightarrow> None
             | Some (True, h) \<Rightarrow> Some (w\<lparr>hub_of := h, sm_of := sm1\<rparr>)
             | Some (False, h) \<Rightarrow>
                 sendError c ''route_failed'' ''failed to route response to peer'' (w\<lparr>hub_of := h, sm_of := sm1\<rparr>))"

text \<open>Route a message to the peer and do not care whether there was one.\<close>

definition route_best :: "string \<Rightarrow> client_ref \<Rightarrow> string \<Rightarrow> signal \<Rightarrow> signal option" where
  "route_best sid c msg w = map_option (\<lambda>(b, h). w\<lparr>hub_of := h\<rparr>) (RouteToPeer sid c msg (sm_of w) (hub_of w))"

definition handleSDPOffer :: "client_ref \<Rightarrow> json option \<Rightarrow> signal \<Rightarrow> signal option" where
  "handleSDPOffer c data w =
     (case unmarshal_raw offer_fields data offer_zero of
        None \<Rightarrow> sendError c ''invalid_sdp_offer'' ''invalid SDP offer payload'' w
      | Some offer \<Rightarrow> route_best (offer_SessionID offer) c (Encode MsgTypeSDPOffer (offer_json offer)) w)"

definition handleSDPAnswer :: "client_ref \<Rightarrow> json option \<Rightarrow> signal \<Rightarrow> signal option" where
  "handleSDPAnswer c data w =
     (case unmarshal_raw answer_fields data answer_zero of
        None \<Rightarrow> sendError c ''invalid_sdp_answer'' ''invalid SDP answer payload'' w
      | Some answer \<Rightarrow> route_best (answer_SessionID answer) c (Encode MsgTypeSDPAnswer (answer_json answer)) w)"

definition handleICECandidate :: "client_ref \<Rightarrow> json option \<Rightarrow> signal \<Rightarrow> signal option" where
  "handleICECandidate c data w =
     (case unmarshal_raw ice_fields data ice_zero of
        None \<Rightarrow> sendError c ''invalid_ice_candidate'' ''invalid ICE candidate payload'' w
      | Some ice \<Rightarrow> route_best (ice_SessionID ice) c (Encode MsgTypeICECandidate (ice_json ice)) w)"

definition handleTransportNegotiate :: "client_ref \<Rightarrow> json option \<Rightarrow> signal \<Rightarrow> signal option" where
  "handleTransportNegotiate c data w =
     (case unmarshal_raw tn_fields data tn_zero of
        None \<Rightarrow> sendError c ''invalid_transport_negotiate'' ''invalid transport negotiate payload'' w
      | Some tn \<Rightarrow> route_best (tn_SessionID tn) c (Encode MsgTypeTransportNegotiate (tn_json tn)) w)"

definition handleDisconnect :: "client_ref \<Rightarrow> json option \<Rightarrow> signal \<Rightarrow> signal option" where
  "handleDisconnect c data w =
     (case unmarshal_raw disc_fields data disc_zero of
        None \<Rightarrow> sendError c ''invalid_disconnect'' ''invalid disconnect payload'' w
      | Some disc \<Rightarrow>
          map_option (\<lambda>w1. w1\<lparr>sm_of := snd (CloseSession (disc_SessionID disc) (sm_of w1))\<rparr>)
            (route_best (disc_SessionID disc) c (Encode MsgTypeDisconnect (disc_json disc)) w))"

definition dispatch :: "int \<Rightarrow> client_ref \<Rightarrow> SignalMessage \<Rightarrow> signal \<Rightarrow> signal option" where
  "dispatch now c envelope w =
     (let t = sm_Type envelope; data = sm_Data envelope
      in if t = MsgTypeRegister then handleRegister now c data w
         else if t = MsgTypeHeartbeat then handleHeartbeat now c data w
         else if t = MsgTypeConnectRequest then handleConnectRequest now c data w
         else if t = MsgTypeConnectResponse then handleConnectResponse c data w
         else if t = MsgTypeSDPOffer then handleSDPOffer c data w
         else if t = MsgTypeSDPAnswer then handleSDPAnswer c data w
         else if t = MsgTypeICECandidate then handleICECandidate c data w
         else if t = MsgTypeTransportNegotiate then handleTransportNegotiate c data w
         else if t = MsgTypeDisconnect then handleDisconnect c data w
         else sendError c ''unknown_type'' (''unknown message type: '' @ t) w)"

definition HandleMessage :: "int \<Rightarrow> client_ref \<Rightarrow> string \<Rightarrow> signal \<Rightarrow> signal option" where
  "HandleMessage now c raw w =
     (case unmarshal envelope_fields raw no_message of
        None \<Rightarrow> sendError c ''invalid_message'' ''invalid message format'' w
      | Some envelope \<Rightarrow> dispatch now c envelope w)"

section \<open>The handlers, segment by segment\<close>

text \<open>What a handler does with the result of \<open>RouteToPeer\<close>.\<close>

datatype after_route = Forget | ReportFailure | ThenClose string

text \<open>What is left of the handling of a message.\<close>

datatype pending =
    Answer string                             \<comment> \<open>a message to the client itself\<close>
  | DoRegister RegisterPayload
  | DoHeartbeat string
  | DoCreate ConnectRequestPayload
  | DoRouteToDevice ConnectRequestPayload
  | DoRejectOffline ConnectRequestPayload
  | DoRecord ConnectResponsePayload           \<comment> \<open>\<open>AcceptSession\<close> or \<open>RejectSession\<close>\<close>
  | DoLookup string string after_route        \<comment> \<open>\<open>RouteToPeer\<close>: \<open>GetPeer\<close>, under the lock\<close>
  | DoSend client_ref string after_route      \<comment> \<open>\<open>RouteToPeer\<close>: the send, after the lock\<close>
  | DoClose string
  | HandlerReturned

definition refused :: "string \<Rightarrow> string \<Rightarrow> pending" where
  "refused ecode message = Answer (error_text ecode message)"

text \<open>Decoding and dispatch touch nothing shared but the client's own device id.\<close>

definition begin_dispatch :: "client_ref \<Rightarrow> SignalMessage \<Rightarrow> hub \<Rightarrow> pending" where
  "begin_dispatch c envelope h =
     (let t = sm_Type envelope; data = sm_Data envelope
      in if t = MsgTypeRegister then
           (case unmarshal_raw reg_fields data reg_zero of
              None \<Rightarrow> refused ''invalid_register'' ''invalid register payload'' | Some reg \<Rightarrow> DoRegister reg)
         else if t = MsgTypeHeartbeat then
           (case unmarshal_raw hb_fields data hb_zero of
              None \<Rightarrow> refused ''invalid_heartbeat'' ''invalid heartbeat payload''
            | Some hb \<Rightarrow> DoHeartbeat (DeviceID (client_at h c)))
         else if t = MsgTypeConnectRequest then
           (case unmarshal_raw creq_fields data creq_zero of
              None \<Rightarrow> refused ''invalid_connect_request'' ''invalid connect request payload'' | Some req \<Rightarrow> DoCreate req)
         else if t = MsgTypeConnectResponse then
           (case unmarshal_raw cresp_fields data cresp_zero of
              None \<Rightarrow> refused ''invalid_connect_response'' ''invalid connect response payload'' | Some resp \<Rightarrow> DoRecord resp)
         else if t = MsgTypeSDPOffer then
           (case unmarshal_raw offer_fields data offer_zero of
              None \<Rightarrow> refused ''invalid_sdp_offer'' ''invalid SDP offer payload''
            | Some offer \<Rightarrow> DoLookup (offer_SessionID offer) (Encode MsgTypeSDPOffer (offer_json offer)) Forget)
         else if t = MsgTypeSDPAnswer then
           (case unmarshal_raw answer_fields data answer_zero of
              None \<Rightarrow> refused ''invalid_sdp_answer'' ''invalid SDP answer payload''
            | Some answer \<Rightarrow> DoLookup (answer_SessionID answer) (Encode MsgTypeSDPAnswer (answer_json answer)) Forget)
         else if t = MsgTypeICECandidate then
           (case unmarshal_raw ice_fields data ice_zero of
              None \<Rightarrow> refused ''invalid_ice_candidate'' ''invalid ICE candidate payload''
            | Some ice \<Rightarrow> DoLookup (ice_SessionID ice) (Encode MsgTypeICECandidate (ice_json ice)) Forget)
         else if t = MsgTypeTransportNegotiate then
           (case unmarshal_raw tn_fields data tn_zero of
              None \<Rightarrow> refused ''invalid_transport_negotiate'' ''invalid transport negotiate payload''
            | Some tn \<Rightarrow> DoLookup (tn_SessionID tn) (Encode MsgTypeTransportNegotiate (tn_json tn)) Forget)
         else if t = MsgTypeDisconnect then
           (case unmarshal_raw disc_fields data disc_zero of
              None \<Rightarrow> refused ''invalid_disconnect'' ''invalid disconnect payload''
            | Some disc \<Rightarrow> DoLookup (disc_SessionID disc) (Encode MsgTypeDisconnect (disc_json disc)) (ThenClose (disc_SessionID disc)))
         else refused ''unknown_type'' (''unknown message type: '' @ t))"

definition begin_message :: "client_ref \<Rightarrow> string \<Rightarrow> hub \<Rightarrow> pending" where
  "begin_message c raw h =
     (case unmarshal envelope_fields raw no_message of
        None \<Rightarrow> refused ''invalid_message'' ''invalid message format''
      | Some envelope \<Rightarrow> begin_dispatch c envelope h)"

fun routed :: "bool \<Rightarrow> after_route \<Rightarrow> pending" where
  "routed ok Forget = HandlerReturned"
| "routed ok ReportFailure =
     (if ok then HandlerReturned else refused ''route_failed'' ''failed to route response to peer'')"
| "routed ok (ThenClose sid) = DoClose sid"

text \<open>One segment of the handler of client \<open>c\<close>.\<close>

fun handle_step :: "int \<Rightarrow> client_ref \<Rightarrow> pending \<Rightarrow> signal \<Rightarrow> (pending \<times> signal) option" where
  "handle_step now c (Answer msg) w = map_option (Pair HandlerReturned) (send_best c msg w)"
| "handle_step now c (DoRegister reg) w =
     Some (Answer (Encode MsgTypeRegisterAck (rack_json \<lparr>rack_Token = ''token-'' @ reg_DeviceID reg, rack_ExpiresAt = 0\<rparr>)),
       if IsAgent (client_at (hub_of w) c) then w\<lparr>hub_of := RegisterDevice now c (device_of reg) (hub_of w)\<rparr> else w)"
| "handle_step now c (DoHeartbeat d) w =
     Some (Answer (Encode MsgTypeHeartbeatAck (hback_json \<lparr>hback_ServerTime = CurrentTimestampMillis now\<rparr>)),
       w\<lparr>hub_of := UpdateHeartbeat now d (hub_of w)\<rparr>)"
| "handle_step now c (DoCreate req) w =
     Some (DoRouteToDevice req, w\<lparr>sm_of := CreateSession now (creq_SessionID req) c (creq_DeviceID req) (creq_Protocols req)
       (hub_of w) (sm_of w)\<rparr>)"
| "handle_step now c (DoRouteToDevice req) w =
     (case RouteToDevice (creq_DeviceID req) (Encode MsgTypeConnectRequest (creq_json req)) (hub_of w) of
        None \<Rightarrow> None
      | Some (ok, h) \<Rightarrow> Some (if ok then HandlerReturned else DoRejectOffline req, w\<lparr>hub_of := h\<rparr>))"
| "handle_step now c (DoRejectOffline req) w =
     Some (refused ''device_offline'' (''device is not online: '' @ creq_DeviceID req),
       w\<lparr>sm_of := snd (RejectSession (creq_SessionID req) (sm_of w))\<rparr>)"
| "handle_step now c (DoRecord resp) w =
     Some (DoLookup (cresp_SessionID resp) (Encode MsgTypeConnectResponse (cresp_json resp)) ReportFailure,
       w\<lparr>sm_of := snd (if cresp_Accepted resp then AcceptSession (cresp_SessionID resp) c (hub_of w) (sm_of w)
                       else RejectSession (cresp_SessionID resp) (sm_of w))\<rparr>)"
| "handle_step now c (DoLookup sid msg k) w =
     Some (case GetPeer sid c (hub_of w) (sm_of w) of
             Some (Some p) \<Rightarrow> DoSend p msg k
           | _ \<Rightarrow> routed False k, w)"
| "handle_step now c (DoSend p msg k) w =
     (case try_send p msg (hub_of w) of
        None \<Rightarrow> None
      | Some (ok, h) \<Rightarrow> Some (routed ok k, w\<lparr>hub_of := h\<rparr>))"
| "handle_step now c (DoClose sid) w = Some (HandlerReturned, w\<lparr>sm_of := snd (CloseSession sid (sm_of w))\<rparr>)"
| "handle_step now c HandlerReturned w = Some (HandlerReturned, w)"

text \<open>Several segments in a row, with nobody else running in between.\<close>

fun handle_steps :: "nat \<Rightarrow> int \<Rightarrow> client_ref \<Rightarrow> pending \<Rightarrow> signal \<Rightarrow> (pending \<times> signal) option" where
  "handle_steps 0 now c x w = Some (x, w)"
| "handle_steps (Suc n) now c x w =
     (case handle_step now c x w of None \<Rightarrow> None | Some (x', w') \<Rightarrow> handle_steps n now c x' w')"

lemma signal_update_order: "w\<lparr>sm_of := x, hub_of := y\<rparr> = (w\<lparr>hub_of := y, sm_of := x\<rparr> :: signal)"
  by simp

lemma handle_steps_returned [simp]: "handle_steps n now c HandlerReturned w = Some (HandlerReturned, w)"
  by (induction n) simp_all

lemma handle_step_refused [simp]:
  "handle_step now c (refused e msg) w = map_option (Pair HandlerReturned) (sendError c e msg w)"
  by (simp add: refused_def sendError_def)

lemma steps_last:
  "handle_steps (Suc n) now c (Answer msg) w = map_option (Pair HandlerReturned) (send_best c msg w)"
  "handle_steps (Suc n) now c (refused e msg) w = map_option (Pair HandlerReturned) (sendError c e msg w)"
  by (simp_all split: option.split)

lemma steps_route:
  "handle_steps (Suc (Suc n)) now c (DoLookup sid msg Forget) w = map_option (Pair HandlerReturned) (route_best sid c msg w)"
  "handle_steps (Suc (Suc (Suc n))) now c (DoLookup sid msg (ThenClose sid')) w =
     map_option (\<lambda>w1. (HandlerReturned, w1\<lparr>sm_of := snd (CloseSession sid' (sm_of w1))\<rparr>)) (route_best sid c msg w)"
  "handle_steps (Suc (Suc (Suc n))) now c (DoLookup sid msg ReportFailure) w = map_option (Pair HandlerReturned)
     (case RouteToPeer sid c msg (sm_of w) (hub_of w) of
        None \<Rightarrow> None
      | Some (True, h) \<Rightarrow> Some (w\<lparr>hub_of := h\<rparr>)
      | Some (False, h) \<Rightarrow> sendError c ''route_failed'' ''failed to route response to peer'' (w\<lparr>hub_of := h\<rparr>))"
  by (auto simp: route_best_def RouteToPeer_def split: option.split prod.split bool.split)

lemma steps_next:
  "handle_steps (Suc n) now c (DoRegister reg) w =
     handle_steps n now c (Answer (Encode MsgTypeRegisterAck (rack_json \<lparr>rack_Token = ''token-'' @ reg_DeviceID reg, rack_ExpiresAt = 0\<rparr>)))
       (if IsAgent (client_at (hub_of w) c) then w\<lparr>hub_of := RegisterDevice now c (device_of reg) (hub_of w)\<rparr> else w)"
  "handle_steps (Suc n) now c (DoHeartbeat d) w =
     handle_steps n now c (Answer (Encode MsgTypeHeartbeatAck (hback_json \<lparr>hback_ServerTime = CurrentTimestampMillis now\<rparr>)))
       (w\<lparr>hub_of := UpdateHeartbeat now d (hub_of w)\<rparr>)"
  "handle_steps (Suc n) now c (DoCreate req) w =
     handle_steps n now c (DoRouteToDevice req) (w\<lparr>sm_of := CreateSession now (creq_SessionID req) c (creq_DeviceID req)
       (creq_Protocols req) (hub_of w) (sm_of w)\<rparr>)"
  "handle_steps (Suc n) now c (DoRecord resp) w =
     handle_steps n now c (DoLookup (cresp_SessionID resp) (Encode MsgTypeConnectResponse (cresp_json resp)) ReportFailure)
       (w\<lparr>sm_of := snd (if cresp_Accepted resp then AcceptSession (cresp_SessionID resp) c (hub_of w) (sm_of w)
                       else RejectSession (cresp_SessionID resp) (sm_of w))\<rparr>)"
  "handle_steps (Suc (Suc (Suc n))) now c (DoRouteToDevice req) w = map_option (Pair HandlerReturned)
     (case RouteToDevice (creq_DeviceID req) (Encode MsgTypeConnectRequest (creq_json req)) (hub_of w) of
        None \<Rightarrow> None
      | Some (True, h) \<Rightarrow> Some (w\<lparr>hub_of := h\<rparr>)
      | Some (False, h) \<Rightarrow> sendError c ''device_offline'' (''device is not online: '' @ creq_DeviceID req)
          (w\<lparr>hub_of := h, sm_of := snd (RejectSession (creq_SessionID req) (sm_of w))\<rparr>))"
  by (auto split: option.split prod.split bool.split)

lemmas handle_segments = steps_last steps_route steps_next

text \<open>Run without interruption, the segments are the handler; there are never more than four.\<close>

lemma dispatch_segments:
  "handle_steps 4 now c (begin_dispatch c env (hub_of w)) w = map_option (Pair HandlerReturned) (dispatch now c env w)"
proof -
  let ?t = "sm_Type env"
  have 4: "(4::nat) = Suc (Suc (Suc (Suc 0)))" by simp
  note D = begin_dispatch_def dispatch_def Let_def 4
  consider "?t = MsgTypeRegister" | "?t = MsgTypeHeartbeat" | "?t = MsgTypeConnectRequest" | "?t = MsgTypeConnectResponse"
    | "?t = MsgTypeDisconnect" | "?t \<in> {MsgTypeSDPOffer, MsgTypeSDPAnswer, MsgTypeICECandidate, MsgTypeTransportNegotiate}"
    | "?t \<notin> {MsgTypeRegister, MsgTypeHeartbeat, MsgTypeConnectRequest, MsgTypeConnectResponse, MsgTypeDisconnect,
          MsgTypeSDPOffer, MsgTypeSDPAnswer, MsgTypeICECandidate, MsgTypeTransportNegotiate}"
    by blast
  then show ?thesis
  proof cases
    case 1
    then show ?thesis by (simp add: D handleRegister_def handle_segments del: handle_steps.simps(2) split: option.split)
  next
    case 2
    then show ?thesis by (simp add: D msg_types handleHeartbeat_def handle_segments del: handle_steps.simps(2) split: option.split)
  next
    case 3
    then show ?thesis
      by (simp add: D msg_types handleConnectRequest_def handle_segments signal_update_order del: handle_steps.simps(2) split: option.split prod.split bool.split)
  next
    case 4
    then show ?thesis
      by (simp add: D msg_types handleConnectResponse_def handle_segments signal_update_order del: handle_steps.simps(2) split: option.split prod.split bool.split)
  next
    case 5
    then show ?thesis
      by (simp add: D msg_types handleDisconnect_def handle_segments option.map_comp comp_def del: handle_steps.simps(2) split: option.split)
  next
    case 6
    then show ?thesis
      by (elim insertE emptyE; simp add: D msg_types handleSDPOffer_def handleSDPAnswer_def handleICECandidate_def
          handleTransportNegotiate_def handle_segments del: handle_steps.simps(2) split: option.split)
  next
    case 7
    then show ?thesis by (simp add: D handle_segments del: handle_steps.simps(2))
  qed
qed

lemma HandleMessage_segments:
  "handle_steps 4 now c (begin_message c raw (hub_of w)) w = map_option (Pair HandlerReturned) (HandleMessage now c raw w)"
proof -
  have "handle_steps 4 now c (refused e m) w = map_option (Pair HandlerReturned) (sendError c e m w)" for e m
    using steps_last(2) [of 3] by simp
  then show ?thesis by (simp add: begin_message_def HandleMessage_def dispatch_segments split: option.split)
qed

text \<open>A handler always comes to its end: every segment leaves fewer to go, and no more than four at the start.\<close>

fun segments_left :: "pending \<Rightarrow> nat" where
  "segments_left HandlerReturned = 0" | "segments_left (Answer _) = 1" | "segments_left (DoClose _) = 1"
| "segments_left (DoSend _ _ k) = (if k = Forget then 1 else 2)"
| "segments_left (DoLookup _ _ k) = (if k = Forget then 2 else 3)"
| "segments_left (DoRecord _) = 4" | "segments_left (DoRejectOffline _) = 2" | "segments_left (DoRouteToDevice _) = 3"
| "segments_left (DoCreate _) = 4" | "segments_left (DoRegister _) = 2" | "segments_left (DoHeartbeat _) = 2"

lemma segments_left_refused [simp]: "segments_left (refused e m) = 1"
  by (simp add: refused_def)

lemma segments_left_routed [simp]:
  "segments_left (routed ok k) = (case k of Forget \<Rightarrow> 0 | ReportFailure \<Rightarrow> if ok then 0 else 1 | ThenClose _ \<Rightarrow> 1)"
  by (cases k) auto

lemma handle_step_left:
  "handle_step now c x w = Some (x', w') \<Longrightarrow> x \<noteq> HandlerReturned \<Longrightarrow> segments_left x' < segments_left x"
  by (cases x) (auto split: option.splits prod.splits if_splits after_route.split)

lemma segments_left_begin: "1 \<le> segments_left (begin_message c raw h)" "segments_left (begin_message c raw h) \<le> 4"
proof -
  have "1 \<le> segments_left (begin_dispatch c env h)" "segments_left (begin_dispatch c env h) \<le> 4" for env
    by (simp_all add: begin_dispatch_def Let_def split: option.split)
  then show "1 \<le> segments_left (begin_message c raw h)" "segments_left (begin_message c raw h) \<le> 4"
    by (simp_all add: begin_message_def split: option.split)
qed

end
