(* ===== verification/Signal_Server.thy ===== *)
theory Signal_Server
  imports Signal_Handler
begin

text \<open>
  \<open>internal/signal/server.go\<close>: the life of a WebSocket client. The goroutine of
  \<open>handleWebSocket\<close> registers the client, reads and handles messages until the connection
  fails, and then cleans up in two locked steps; \<open>writePump\<close> empties the client's queue into
  the connection. A panic ends the goroutine: \<open>net/http\<close> recovers it, so the server goes
  on, but the clean-up is skipped. A step is one segment of one goroutine: the handling of a
  message is several steps (\<open>handle_step\<close>), and all goroutines interleave freely. The
  connection is closed when \<open>readPump\<close> returns or panics; nothing is written to it after that. A message longer than
  the read limit is a failure to read; the channel \<open>Close\<close> of a client is never closed.
\<close>

section \<open>Configuration and the HTTP side\<close>

definition PingInterval :: nat where "PingInterval = 30"  \<comment> \<open>seconds\<close>
definition PongWait :: nat where "PongWait = 60"

record server_config =
  srv_Addr :: string
  srv_Path :: string
  HeartbeatInterval :: nat

definition DefaultConfig :: server_config where
  "DefaultConfig = \<lparr>srv_Addr = '':10980'', srv_Path = ''/signal'', HeartbeatInterval = 30\<rparr>"

text \<open>The default that \<open>NewServer\<close> fills in.\<close>

definition NewServer_config :: "server_config \<Rightarrow> server_config" where
  "NewServer_config c = (if HeartbeatInterval c = 0 then c\<lparr>HeartbeatInterval := 30\<rparr> else c)"

text \<open>\<open>corsMiddleware\<close>: headers on every response; an \<open>OPTIONS\<close> request goes no further.\<close>

record http_response =
  resp_headers :: "(string \<times> string) list"
  resp_status :: nat
  resp_body :: string

definition cors_headers :: "(string \<times> string) list" where
  "cors_headers = [(''Access-Control-Allow-Origin'', ''*''), (''Access-Control-Allow-Methods'', ''GET, POST, OPTIONS''),
     (''Access-Control-Allow-Headers'', ''Content-Type'')]"

definition corsMiddleware :: "(string \<Rightarrow> http_response \<Rightarrow> http_response) \<Rightarrow> string \<Rightarrow> http_response \<Rightarrow> http_response" where
  "corsMiddleware next_handler req_method resp =
     (let r1 = resp\<lparr>resp_headers := fold (\<lambda>(k, v). AList.update k v) cors_headers (resp_headers resp)\<rparr>
      in if req_method = ''OPTIONS'' then r1\<lparr>resp_status := 204\<rparr> else next_handler req_method r1)"

definition health :: "string \<Rightarrow> http_response \<Rightarrow> http_response" where
  "health req_method r = r\<lparr>resp_status := 200, resp_body := resp_body r @ ''ok''\<rparr>"

text \<open>\<open>generateClientID\<close>: the current second, formatted.\<close>

definition generateClientID :: "string \<Rightarrow> string" where
  "generateClientID timestamp = ''cl-'' @ timestamp"

section \<open>Goroutines\<close>

datatype reader_at =
    NotConnected
  | Reading
  | Handling pending   \<comment> \<open>in \<open>HandleMessage\<close>, with this much to do\<close>
  | Removing
  | Unregistering
  | Disconnected
  | Panicked

datatype writer_at = NoWriter | Writing | WriterReturned
datatype ws_frame = TextMessage string | PingMessage | CloseMessage

record signal_server =
  sig_of :: signal
  reader :: "client_ref \<Rightarrow> reader_at"
  writer :: "client_ref \<Rightarrow> writer_at"
  ws_open :: "client_ref \<Rightarrow> bool"
  wire_out :: "client_ref \<Rightarrow> ws_frame list"

definition NewServer :: signal_server where
  "NewServer = \<lparr>sig_of = NewHandler, reader = (\<lambda>_. NotConnected), writer = (\<lambda>_. NoWriter),
     ws_open = (\<lambda>_. False), wire_out = (\<lambda>_. [])\<rparr>"

definition new_client :: "string \<Rightarrow> string \<Rightarrow> client" where
  "new_client timestamp query_type = \<lparr>cl_ID = generateClientID timestamp, IsAgent = (query_type = ''agent''),
     DeviceID = [], UserID = [], Send = [], send_closed = False\<rparr>"

definition set_reader :: "client_ref \<Rightarrow> reader_at \<Rightarrow> signal_server \<Rightarrow> signal_server" where
  "set_reader c p s = s\<lparr>reader := (reader s)(c := p)\<rparr>"

definition set_hub :: "hub \<Rightarrow> signal_server \<Rightarrow> signal_server" where
  "set_hub h s = s\<lparr>sig_of := (sig_of s)\<lparr>hub_of := h\<rparr>\<rparr>"

text \<open>\<open>handleWebSocket\<close> up to \<open>readPump\<close>.\<close>

definition ws_connect :: "client_ref \<Rightarrow> string \<Rightarrow> string \<Rightarrow> signal_server \<Rightarrow> signal_server" where
  "ws_connect c timestamp query_type s =
     (let h = RegisterClient c (set_client c (new_client timestamp query_type) (hub_of (sig_of s)))
      in (set_reader c Reading (set_hub h s))\<lparr>writer := (writer s)(c := Writing), ws_open := (ws_open s)(c := True)\<rparr>)"

text \<open>\<open>readPump\<close>: a message comes in; one segment of its handling; the end, which closes the connection.\<close>

definition read_message :: "client_ref \<Rightarrow> string \<Rightarrow> signal_server \<Rightarrow> signal_server" where
  "read_message c raw s = set_reader c (Handling (begin_message c raw (hub_of (sig_of s)))) s"

definition close_ws :: "client_ref \<Rightarrow> signal_server \<Rightarrow> signal_server" where
  "close_ws c s = s\<lparr>ws_open := (ws_open s)(c := False)\<rparr>"

definition handle_next :: "int \<Rightarrow> client_ref \<Rightarrow> signal_server \<Rightarrow> signal_server" where
  "handle_next now c s =
     (case reader s c of
        Handling x \<Rightarrow>
          (case handle_step now c x (sig_of s) of
             None \<Rightarrow> close_ws c (set_reader c Panicked s)
           | Some (HandlerReturned, w) \<Rightarrow> set_reader c Reading (s\<lparr>sig_of := w\<rparr>)
           | Some (x', w) \<Rightarrow> set_reader c (Handling x') (s\<lparr>sig_of := w\<rparr>))
      | _ \<Rightarrow> s)"

definition read_fails :: "client_ref \<Rightarrow> signal_server \<Rightarrow> signal_server" where
  "read_fails c s = close_ws c (set_reader c Removing s)"

definition ws_remove :: "client_ref \<Rightarrow> signal_server \<Rightarrow> signal_server" where
  "ws_remove c s =
     set_reader c Unregistering (s\<lparr>sig_of := (sig_of s)
       \<lparr>sm_of := RemoveClientSessions (cl_ID (client_at (hub_of (sig_of s)) c)) (sm_of (sig_of s))\<rparr>\<rparr>)"

definition ws_unregister :: "client_ref \<Rightarrow> signal_server \<Rightarrow> signal_server" where
  "ws_unregister c s =
     (case UnregisterClient c (hub_of (sig_of s)) of
        None \<Rightarrow> set_reader c Panicked s
      | Some h \<Rightarrow> set_reader c Disconnected (set_hub h s))"

text \<open>
  One turn of \<open>writePump\<close>: a message, a ping, or the end. \<open>network_ok\<close> is whether the network takes
  the write; on a closed connection every write fails.
\<close>

definition put_wire :: "client_ref \<Rightarrow> ws_frame \<Rightarrow> signal_server \<Rightarrow> signal_server" where
  "put_wire c f s = s\<lparr>wire_out := (wire_out s)(c := wire_out s c @ [f])\<rparr>"

definition write_next :: "client_ref \<Rightarrow> bool \<Rightarrow> signal_server \<Rightarrow> signal_server" where
  "write_next c network_ok s =
     (let h = hub_of (sig_of s); x = client_at h c; write_ok = (network_ok \<and> ws_open s c)
      in case Send x of
           m # ms \<Rightarrow>
             let s1 = set_hub (set_client c (x\<lparr>Send := ms\<rparr>) h) s
             in if write_ok then put_wire c (TextMessage m) s1 else s1\<lparr>writer := (writer s)(c := WriterReturned)\<rparr>
         | [] \<Rightarrow>
             if send_closed x
             then (if write_ok then put_wire c CloseMessage s else s)\<lparr>writer := (writer s)(c := WriterReturned)\<rparr>
             else s)"

definition write_ping :: "client_ref \<Rightarrow> bool \<Rightarrow> signal_server \<Rightarrow> signal_server" where
  "write_ping c network_ok s =
     (if network_ok \<and> ws_open s c then put_wire c PingMessage s else s\<lparr>writer := (writer s)(c := WriterReturned)\<rparr>)"

section \<open>Steps\<close>

datatype event =
    Connect client_ref string string
  | Message client_ref string
  | Handle client_ref int
  | ReadError client_ref
  | Remove client_ref
  | Unregister client_ref
  | Write client_ref bool
  | Ping client_ref bool

fun enabled :: "event \<Rightarrow> signal_server \<Rightarrow> bool" where
  "enabled (Connect c t q) s = (reader s c = NotConnected)"
| "enabled (Message c raw) s = (reader s c = Reading)"
| "enabled (Handle c now) s = (case reader s c of Handling x \<Rightarrow> True | _ \<Rightarrow> False)"
| "enabled (ReadError c) s = (reader s c = Reading)"
| "enabled (Remove c) s = (reader s c = Removing)"
| "enabled (Unregister c) s = (reader s c = Unregistering)"
| "enabled (Write c ok) s = (writer s c = Writing)"
| "enabled (Ping c ok) s = (writer s c = Writing)"

fun occur :: "event \<Rightarrow> signal_server \<Rightarrow> signal_server" where
  "occur (Connect c t q) s = ws_connect c t q s"
| "occur (Message c raw) s = read_message c raw s"
| "occur (Handle c now) s = handle_next now c s"
| "occur (ReadError c) s = read_fails c s"
| "occur (Remove c) s = ws_remove c s"
| "occur (Unregister c) s = ws_unregister c s"
| "occur (Write c ok) s = write_next c ok s"
| "occur (Ping c ok) s = write_ping c ok s"

inductive signal_step :: "signal_server \<Rightarrow> signal_server \<Rightarrow> bool" where
  Occur: "enabled e s \<Longrightarrow> signal_step s (occur e s)"

definition signal_init :: "signal_server \<Rightarrow> bool" where
  "signal_init s \<longleftrightarrow> s = NewServer"

end
