(* ===== verification/Signal_Invariant.thy ===== *)
theory Signal_Invariant
  imports Signal_Server
begin

text \<open>
  The invariants of the signal server. The first one ties the hub's three tables and the
  session table to the clients that have been registered and not yet unregistered. It holds in every
  run whose clients have ids of their own while they are registered and whose agents keep to one
  nonempty device id (\<open>regular\<close>); in such runs a goroutine can panic at one place only, the send
  of \<open>RouteToPeer\<close>. The second one, about channels and connections, holds in every run.
\<close>

section \<open>The hub\<close>

definition hub_inv :: "(client_ref \<Rightarrow> bool) \<Rightarrow> hub \<Rightarrow> bool" where
  "hub_inv live h \<longleftrightarrow>
     (\<forall>c. length (Send (client_at h c)) \<le> SendBufferSize)
     \<and> (\<forall>c. live c \<longrightarrow> \<not> send_closed (client_at h c))
     \<and> (\<forall>c d. live c \<and> live d \<and> cl_ID (client_at h c) = cl_ID (client_at h d) \<longrightarrow> c = d)
     \<and> (\<forall>i c. map_of (clients h) i = Some c \<longleftrightarrow> live c \<and> cl_ID (client_at h c) = i)
     \<and> (\<forall>d c. map_of (byDevice h) d = Some c \<longleftrightarrow>
          live c \<and> IsAgent (client_at h c) \<and> DeviceID (client_at h c) = d \<and> d \<noteq> [])
     \<and> (\<forall>d. map_of (devices h) d = None \<longleftrightarrow> map_of (byDevice h) d = None)
     \<and> (\<forall>d x. map_of (devices h) d = Some x \<longrightarrow> dev_ID x = d)
     \<and> gomap_ok (devices h)"

lemma hub_invI:
  assumes "\<And>c. length (Send (client_at h c)) \<le> SendBufferSize" and "\<And>c. live c \<Longrightarrow> \<not> send_closed (client_at h c)"
    and "\<And>c d. live c \<Longrightarrow> live d \<Longrightarrow> cl_ID (client_at h c) = cl_ID (client_at h d) \<Longrightarrow> c = d"
    and "\<And>i c. map_of (clients h) i = Some c \<longleftrightarrow> live c \<and> cl_ID (client_at h c) = i"
    and "\<And>d c. map_of (byDevice h) d = Some c \<longleftrightarrow>
        live c \<and> IsAgent (client_at h c) \<and> DeviceID (client_at h c) = d \<and> d \<noteq> []"
    and "\<And>d. map_of (devices h) d = None \<longleftrightarrow> map_of (byDevice h) d = None"
    and "\<And>d x. map_of (devices h) d = Some x \<Longrightarrow> dev_ID x = d" and "gomap_ok (devices h)"
  shows "hub_inv live h"
  using assms unfolding hub_inv_def by blast

lemma hub_invD:
  assumes "hub_inv live h"
  shows "length (Send (client_at h c)) \<le> SendBufferSize" and "live c \<Longrightarrow> \<not> send_closed (client_at h c)"
    and "live c \<Longrightarrow> live d \<Longrightarrow> cl_ID (client_at h c) = cl_ID (client_at h d) \<Longrightarrow> c = d"
    and "map_of (clients h) i = Some c \<longleftrightarrow> live c \<and> cl_ID (client_at h c) = i"
    and "map_of (byDevice h) e = Some c \<longleftrightarrow>
        live c \<and> IsAgent (client_at h c) \<and> DeviceID (client_at h c) = e \<and> e \<noteq> []"
    and "map_of (devices h) e = None \<longleftrightarrow> map_of (byDevice h) e = None"
    and "map_of (devices h) e = Some x \<Longrightarrow> dev_ID x = e" and "gomap_ok (devices h)"
proof -
  note h = assms [unfolded hub_inv_def]
  note t3 = h [THEN conjunct2, THEN conjunct2, THEN conjunct2]
  show "length (Send (client_at h c)) \<le> SendBufferSize" using h [THEN conjunct1] by blast
  show "live c \<Longrightarrow> \<not> send_closed (client_at h c)" using h [THEN conjunct2, THEN conjunct1] by blast
  show "live c \<Longrightarrow> live d \<Longrightarrow> cl_ID (client_at h c) = cl_ID (client_at h d) \<Longrightarrow> c = d"
    using h [THEN conjunct2, THEN conjunct2, THEN conjunct1] by blast
  show "map_of (clients h) i = Some c \<longleftrightarrow> live c \<and> cl_ID (client_at h c) = i" using t3 [THEN conjunct1] by blast
  show "map_of (byDevice h) e = Some c \<longleftrightarrow>
        live c \<and> IsAgent (client_at h c) \<and> DeviceID (client_at h c) = e \<and> e \<noteq> []"
    using t3 [THEN conjunct2, THEN conjunct1] by blast
  show "map_of (devices h) e = None \<longleftrightarrow> map_of (byDevice h) e = None"
    using t3 [THEN conjunct2, THEN conjunct2, THEN conjunct1] by blast
  show "map_of (devices h) e = Some x \<Longrightarrow> dev_ID x = e"
    using t3 [THEN conjunct2, THEN conjunct2, THEN conjunct2, THEN conjunct1] by blast
  show "gomap_ok (devices h)" using t3 [THEN conjunct2, THEN conjunct2, THEN conjunct2, THEN conjunct2] .
qed

lemma set_client_simps [simp]:
  "client_at (set_client c x h) = (client_at h)(c := x)" "clients (set_client c x h) = clients h"
  "devices (set_client c x h) = devices h" "byDevice (set_client c x h) = byDevice h"
  by (simp_all add: set_client_def)

text \<open>What sending does: nothing but append to one queue; to a live client it never panics.\<close>

definition only_sends :: "hub \<Rightarrow> hub \<Rightarrow> bool" where
  "only_sends h h' \<longleftrightarrow> clients h' = clients h \<and> devices h' = devices h \<and> byDevice h' = byDevice h
     \<and> (\<forall>c. (client_at h' c)\<lparr>Send := []\<rparr> = (client_at h c)\<lparr>Send := []\<rparr>)
     \<and> (\<forall>c. length (Send (client_at h c)) \<le> SendBufferSize \<longrightarrow> length (Send (client_at h' c)) \<le> SendBufferSize)"

lemma only_sends_refl [simp]: "only_sends h h"
  by (simp add: only_sends_def)

lemma only_sends_trans: "only_sends h1 h2 \<Longrightarrow> only_sends h2 h3 \<Longrightarrow> only_sends h1 h3"
  unfolding only_sends_def by metis

lemma client_fields_cong:
  assumes "(x::client)\<lparr>Send := []\<rparr> = y\<lparr>Send := []\<rparr>"
  shows "cl_ID x = cl_ID y" "IsAgent x = IsAgent y" "DeviceID x = DeviceID y" "send_closed x = send_closed y"
  using arg_cong [OF assms, of cl_ID] arg_cong [OF assms, of IsAgent] arg_cong [OF assms, of DeviceID]
    arg_cong [OF assms, of send_closed]
  by simp_all

lemma only_sends_fields:
  assumes "only_sends h h'"
  shows "cl_ID (client_at h' c) = cl_ID (client_at h c)" "IsAgent (client_at h' c) = IsAgent (client_at h c)"
    "DeviceID (client_at h' c) = DeviceID (client_at h c)" "send_closed (client_at h' c) = send_closed (client_at h c)"
  using assms client_fields_cong [of "client_at h' c" "client_at h c"] by (simp_all add: only_sends_def)

lemma try_send_only:
  assumes "try_send c msg h = Some (b, h')"
  shows "only_sends h h'"
  using assms by (auto simp: try_send_def only_sends_def Let_def split: if_splits)

lemma try_send_live: "hub_inv live h \<Longrightarrow> live c \<Longrightarrow> \<exists>b h'. try_send c msg h = Some (b, h')"
  using hub_invD(2) [of live h c] by (auto simp: try_send_def Let_def)

lemma only_sends_inv: "hub_inv live h \<Longrightarrow> only_sends h h' \<Longrightarrow> hub_inv live h'"
  by (rule hub_invI)
    (use hub_invD [of live h] only_sends_fields [of h h'] in \<open>auto simp: only_sends_def\<close>)

lemma UpdateHeartbeat_simps [simp]:
  "client_at (UpdateHeartbeat now d h) = client_at h" "clients (UpdateHeartbeat now d h) = clients h"
  "byDevice (UpdateHeartbeat now d h) = byDevice h"
  by (simp_all add: UpdateHeartbeat_def split: option.split)

lemma UpdateHeartbeat_inv: "hub_inv live h \<Longrightarrow> hub_inv live (UpdateHeartbeat now d h)"
proof (rule hub_invI)
  fix e x assume inv: "hub_inv live h" and "map_of (devices (UpdateHeartbeat now d h)) e = Some x"
  then show "dev_ID x = e"
    using hub_invD(7) [OF inv] by (auto simp: UpdateHeartbeat_def split: option.splits if_splits)
next
  fix e assume inv: "hub_inv live h"
  show "map_of (devices (UpdateHeartbeat now d h)) e = None \<longleftrightarrow> map_of (byDevice (UpdateHeartbeat now d h)) e = None"
    using hub_invD(6) [OF inv, of e] by (auto simp: UpdateHeartbeat_def split: option.splits)
next
  assume "hub_inv live h"
  then show "gomap_ok (devices (UpdateHeartbeat now d h))"
    using hub_invD(8) [of live h] by (simp add: UpdateHeartbeat_def gm.ok_put split: option.split)
qed (use hub_invD [of live h] in auto)

lemma RegisterDevice_eq:
  "RegisterDevice now c info h =
     (let d = dev_ID info;
          old = (if map_of (devices h) d = None then None else map_of (byDevice h) d);
          ca = (case old of None \<Rightarrow> client_at h | Some q \<Rightarrow> (client_at h)(q := (client_at h q)\<lparr>DeviceID := []\<rparr>));
          reg = (case map_of (devices h) d of None \<Rightarrow> now | Some x \<Rightarrow> dev_Registered x)
      in h\<lparr>client_at := ca(c := (ca c)\<lparr>DeviceID := d\<rparr>), byDevice := AList.update d c (byDevice h),
           devices := AList.update d (info\<lparr>dev_Registered := reg, dev_LastSeen := now\<rparr>) (devices h)\<rparr>)"
  by (auto simp: RegisterDevice_def set_DeviceID_def set_client_def Let_def split: option.splits)

text \<open>A regular registration: a nonempty id, the client's own one if it has one already.\<close>

lemma RegisterDevice_inv:
  assumes inv: "hub_inv live h" and c: "live c" "IsAgent (client_at h c)"
    and d: "dev_ID info \<noteq> []" "DeviceID (client_at h c) \<in> {[], dev_ID info}"
  shows "hub_inv live (RegisterDevice now c info h)"
proof -
  let ?d = "dev_ID info" and ?h = "RegisterDevice now c info h"
  have old: "(if map_of (devices h) ?d = None then None else map_of (byDevice h) ?d) = map_of (byDevice h) ?d"
    using hub_invD(6) [OF inv, of ?d] by auto
  note eq = RegisterDevice_eq [of now c info h, unfolded old Let_def]
  have same: "Send (client_at ?h e) = Send (client_at h e)" "send_closed (client_at ?h e) = send_closed (client_at h e)"
    "cl_ID (client_at ?h e) = cl_ID (client_at h e)" "IsAgent (client_at ?h e) = IsAgent (client_at h e)" for e
    by (auto simp: eq split: option.split)
  have dev: "DeviceID (client_at ?h e) =
      (if e = c then ?d else if map_of (byDevice h) ?d = Some e then [] else DeviceID (client_at h e))" for e
    by (auto simp: eq split: option.split)
  have tabs: "clients ?h = clients h" "map_of (byDevice ?h) = (map_of (byDevice h))(?d \<mapsto> c)"
    "map_of (devices ?h) = (map_of (devices h))(?d \<mapsto> info\<lparr>dev_Registered :=
       (case map_of (devices h) ?d of None \<Rightarrow> now | Some x \<Rightarrow> dev_Registered x), dev_LastSeen := now\<rparr>)"
    by (auto simp: eq)
  show ?thesis
  proof (rule hub_invI)
    fix e f
    show "map_of (byDevice ?h) e = Some f \<longleftrightarrow> live f \<and> IsAgent (client_at ?h f) \<and> DeviceID (client_at ?h f) = e \<and> e \<noteq> []"
      using hub_invD(5) [OF inv, of e f] hub_invD(5) [OF inv, of ?d f] c d unfolding tabs(2) same dev by auto
  next
    fix e show "map_of (devices ?h) e = None \<longleftrightarrow> map_of (byDevice ?h) e = None"
      using tabs hub_invD(6) [OF inv, of e] by auto
  next
    fix e x assume "map_of (devices ?h) e = Some x" then show "dev_ID x = e"
      using tabs(3) hub_invD(7) [OF inv, of e] by (auto split: if_splits)
  next
    show "gomap_ok (devices ?h)" using hub_invD(8) [OF inv] by (simp add: eq gm.ok_put)
  qed (use same tabs hub_invD [OF inv] in auto)
qed

section \<open>Clients that come and go\<close>

lemma ws_connect_inv:
  assumes inv: "hub_inv live h" and c: "\<not> live c"
    and new: "\<And>d. live d \<Longrightarrow> cl_ID (client_at h d) \<noteq> generateClientID t"
  shows "hub_inv (live(c := True)) (RegisterClient c (set_client c (new_client t q) h))"
proof (rule hub_invI)
  fix i d
  show "map_of (clients (RegisterClient c (set_client c (new_client t q) h))) i = Some d \<longleftrightarrow>
      (live(c := True)) d \<and> cl_ID (client_at (RegisterClient c (set_client c (new_client t q) h)) d) = i"
    using hub_invD(4) [OF inv, of i d] new [of d] c by (auto simp: RegisterClient_def new_client_def)
next
  fix e d
  show "map_of (byDevice (RegisterClient c (set_client c (new_client t q) h))) e = Some d \<longleftrightarrow>
      (live(c := True)) d \<and> IsAgent (client_at (RegisterClient c (set_client c (new_client t q) h)) d)
      \<and> DeviceID (client_at (RegisterClient c (set_client c (new_client t q) h)) d) = e \<and> e \<noteq> []"
    using hub_invD(5) [OF inv, of e d] c by (auto simp: RegisterClient_def new_client_def)
next
  fix d e
  assume "(live(c := True)) d" "(live(c := True)) e"
    "cl_ID (client_at (RegisterClient c (set_client c (new_client t q) h)) d) =
     cl_ID (client_at (RegisterClient c (set_client c (new_client t q) h)) e)"
  then show "d = e"
    using hub_invD(3) [OF inv, of d e] new [of d] new [of e]
    by (auto simp: RegisterClient_def new_client_def split: if_splits)
qed (use hub_invD [OF inv] c in \<open>auto simp: RegisterClient_def new_client_def SendBufferSize_def split: if_splits\<close>)

lemma UnregisterClient_eq:
  "\<not> send_closed (client_at h c) \<Longrightarrow> UnregisterClient c h =
     (let x = client_at h c; agent = (IsAgent x \<and> DeviceID x \<noteq> [])
      in Some (h\<lparr>clients := AList.delete (cl_ID x) (clients h),
           byDevice := (if agent then AList.delete (DeviceID x) (byDevice h) else byDevice h),
           devices := (if agent then AList.delete (DeviceID x) (devices h) else devices h),
           client_at := (client_at h)(c := x\<lparr>send_closed := True\<rparr>)\<rparr>))"
  by (auto simp: UnregisterClient_def close_send_def set_client_def Let_def)

lemma UnregisterClient_inv:
  assumes inv: "hub_inv live h" and c: "live c"
  shows "\<exists>h'. UnregisterClient c h = Some h' \<and> hub_inv (live(c := False)) h' \<and> (\<forall>d. cl_ID (client_at h' d) = cl_ID (client_at h d))"
proof -
  let ?x = "client_at h c" and ?agent = "IsAgent (client_at h c) \<and> DeviceID (client_at h c) \<noteq> []"
  let ?h = "h\<lparr>clients := AList.delete (cl_ID ?x) (clients h), byDevice := (if ?agent then AList.delete (DeviceID ?x) (byDevice h) else byDevice h),
      devices := (if ?agent then AList.delete (DeviceID ?x) (devices h) else devices h),
      client_at := (client_at h)(c := ?x\<lparr>send_closed := True\<rparr>)\<rparr>"
  have eq: "UnregisterClient c h = Some ?h"
    using UnregisterClient_eq [OF hub_invD(2) [OF inv c]] by (simp add: Let_def)
  have "hub_inv (live(c := False)) ?h"
  proof (rule hub_invI)
    fix i d show "map_of (clients ?h) i = Some d \<longleftrightarrow> (live(c := False)) d \<and> cl_ID (client_at ?h d) = i"
      using hub_invD(4) [OF inv, of i d] hub_invD(3) [OF inv, of c d] hub_invD(4) [OF inv, of "cl_ID ?x" c] c
      by auto
  next
    fix e d show "map_of (byDevice ?h) e = Some d \<longleftrightarrow>
        (live(c := False)) d \<and> IsAgent (client_at ?h d) \<and> DeviceID (client_at ?h d) = e \<and> e \<noteq> []"
      using hub_invD(5) [OF inv, of e d] hub_invD(5) [OF inv, of e c] hub_invD(5) [OF inv, of "DeviceID ?x" c] c
      by auto
  next
    fix e show "map_of (devices ?h) e = None \<longleftrightarrow> map_of (byDevice ?h) e = None"
      using hub_invD(6) [OF inv, of e] by auto
  next
    fix e x assume "map_of (devices ?h) e = Some x" then show "dev_ID x = e"
      using hub_invD(7) [OF inv, of e x] by (auto split: if_splits)
  next
    fix d e assume "(live(c := False)) d" "(live(c := False)) e" "cl_ID (client_at ?h d) = cl_ID (client_at ?h e)"
    then show "d = e" using hub_invD(3) [OF inv, of d e] by (auto split: if_splits)
  qed (use hub_invD [OF inv] in \<open>auto simp: gm.ok_del split: if_splits\<close>)
  then show ?thesis using eq by auto
qed

section \<open>The session table\<close>

text \<open>
  A session in the table stands under its own id, and its two ends are clients that are
  active (they read, or have not yet removed their sessions) and list the session.
\<close>

definition party :: "(client_ref \<Rightarrow> bool) \<Rightarrow> hub \<Rightarrow> session_manager \<Rightarrow> session_ref \<Rightarrow> client_ref \<Rightarrow> bool" where
  "party act h sm r c \<longleftrightarrow> act c \<and> r \<in> set (client_sessions (cl_ID (client_at h c)) sm)"

definition sm_inv :: "(client_ref \<Rightarrow> bool) \<Rightarrow> hub \<Rightarrow> session_manager \<Rightarrow> bool" where
  "sm_inv act h sm \<longleftrightarrow> (\<forall>sid r. map_of (sessions sm) sid = Some r \<longrightarrow>
     r < next_session sm \<and> ses_ID (session_at sm r) = sid
     \<and> (\<forall>c. Initiator (session_at sm r) = Some c \<longrightarrow> party act h sm r c)
     \<and> (\<forall>c. Responder (session_at sm r) = Some c \<longrightarrow> party act h sm r c))"

lemma sm_invD:
  assumes "sm_inv act h sm" "map_of (sessions sm) sid = Some r"
  shows "r < next_session sm" "ses_ID (session_at sm r) = sid"
    "Initiator (session_at sm r) = Some c \<Longrightarrow> party act h sm r c"
    "Responder (session_at sm r) = Some c \<Longrightarrow> party act h sm r c"
  using assms unfolding sm_inv_def by blast+

lemma sm_inv_cong:
  assumes "sm_inv act h sm" "\<And>c. act c \<Longrightarrow> cl_ID (client_at h' c) = cl_ID (client_at h c)"
    "\<And>c. act c \<Longrightarrow> act' c"
  shows "sm_inv act' h' sm"
  using assms unfolding sm_inv_def party_def by metis

lemma session_frame [simp]:
  "sessions (add_session i r sm) = sessions sm" "session_at (add_session i r sm) = session_at sm"
  "next_session (add_session i r sm) = next_session sm"
  "client_sessions j (add_session i r sm) = (if j = i then client_sessions i sm @ [r] else client_sessions j sm)"
  "sessions (set_signal_session r x sm) = sessions sm" "session_at (set_signal_session r x sm) = (session_at sm)(r := x)"
  "next_session (set_signal_session r x sm) = next_session sm"
  "client_sessions j (set_signal_session r x sm) = client_sessions j sm"
  by (auto simp: add_session_def set_signal_session_def client_sessions_def)

lemma client_sessions_upd [simp]:
  "client_sessions j (sm\<lparr>session_at := f\<rparr>) = client_sessions j sm"
  "client_sessions j (sm\<lparr>next_session := n\<rparr>) = client_sessions j sm"
  "client_sessions j (sm\<lparr>sessions := m\<rparr>) = client_sessions j sm"
  by (simp_all add: client_sessions_def)

lemma CreateSession_inv:
  assumes "sm_inv act h sm" "act c"
  shows "sm_inv act h (CreateSession now sid c d ps h sm)"
  unfolding sm_inv_def
proof (intro allI impI)
  fix i r assume tab: "map_of (sessions (CreateSession now sid c d ps h sm)) i = Some r"
  show "r < next_session (CreateSession now sid c d ps h sm) \<and> ses_ID (session_at (CreateSession now sid c d ps h sm) r) = i
      \<and> (\<forall>e. Initiator (session_at (CreateSession now sid c d ps h sm) r) = Some e
            \<longrightarrow> party act h (CreateSession now sid c d ps h sm) r e)
      \<and> (\<forall>e. Responder (session_at (CreateSession now sid c d ps h sm) r) = Some e
            \<longrightarrow> party act h (CreateSession now sid c d ps h sm) r e)"
  proof (cases "i = sid")
    case True then show ?thesis using tab assms(2) by (simp add: CreateSession_def Let_def party_def)
  next
    case False
    then have "map_of (sessions sm) i = Some r" using tab by (simp add: CreateSession_def Let_def)
    note D = sm_invD [OF assms(1) this]
    show ?thesis using D by (auto simp: CreateSession_def Let_def party_def)
  qed
qed

lemma AcceptSession_inv:
  assumes inv: "sm_inv act h sm" and "act c"
  shows "sm_inv act h (snd (AcceptSession sid c h sm))"
  using assms by (fastforce simp: AcceptSession_def sm_inv_def party_def split: option.split)

lemma set_status_inv: "sm_inv act h sm \<Longrightarrow> sm_inv act h (snd (set_status st sid sm))"
  by (fastforce simp: set_status_def sm_inv_def party_def split: option.split)

lemma status_frame [simp]:
  "ses_ID (if q = r then (x r)\<lparr>Status := st\<rparr> else x q) = ses_ID (x q)"
  "Initiator (if q = r then (x r)\<lparr>Status := st\<rparr> else x q) = Initiator (x q)"
  "Responder (if q = r then (x r)\<lparr>Status := st\<rparr> else x q) = Responder (x q)"
  by simp_all

lemma remove_sessions_effect:
  "map_of (sessions (remove_sessions rs sm)) sid =
     (if sid \<in> (\<lambda>r. ses_ID (session_at sm r)) ` set rs then None else map_of (sessions sm) sid)"
  "ses_ID (session_at (remove_sessions rs sm) r) = ses_ID (session_at sm r)"
  "Initiator (session_at (remove_sessions rs sm) r) = Initiator (session_at sm r)"
  "Responder (session_at (remove_sessions rs sm) r) = Responder (session_at sm r)"
  "byClient (remove_sessions rs sm) = byClient sm" "next_session (remove_sessions rs sm) = next_session sm"
  by (induction rs arbitrary: sm) (simp_all add: set_signal_session_def)

lemma RemoveClientSessions_effect:
  "map_of (sessions (RemoveClientSessions i sm)) sid =
     (if sid \<in> (\<lambda>r. ses_ID (session_at sm r)) ` set (client_sessions i sm) then None else map_of (sessions sm) sid)"
  "ses_ID (session_at (RemoveClientSessions i sm) r) = ses_ID (session_at sm r)"
  "Initiator (session_at (RemoveClientSessions i sm) r) = Initiator (session_at sm r)"
  "Responder (session_at (RemoveClientSessions i sm) r) = Responder (session_at sm r)"
  "next_session (RemoveClientSessions i sm) = next_session sm"
  "client_sessions j (RemoveClientSessions i sm) = (if j = i then [] else client_sessions j sm)"
  by (simp_all add: RemoveClientSessions_def Let_def remove_sessions_effect client_sessions_def)

lemma RemoveClientSessions_inv:
  assumes inv: "sm_inv act h sm"
  shows "sm_inv (act(c := False)) h (RemoveClientSessions (cl_ID (client_at h c)) sm)"
  unfolding sm_inv_def
proof (intro allI impI)
  fix sid r assume "map_of (sessions (RemoveClientSessions (cl_ID (client_at h c)) sm)) sid = Some r"
  then have tab: "map_of (sessions sm) sid = Some r"
    and gone: "sid \<notin> (\<lambda>r. ses_ID (session_at sm r)) ` set (client_sessions (cl_ID (client_at h c)) sm)"
    by (auto simp: RemoveClientSessions_effect split: if_splits)
  note D = sm_invD [OF inv tab]
  have keep: "party (act(c := False)) h (RemoveClientSessions (cl_ID (client_at h c)) sm) r e"
    if "party act h sm r e" for e
    using that gone D(2) by (force simp: party_def RemoveClientSessions_effect)
  show "r < next_session (RemoveClientSessions (cl_ID (client_at h c)) sm)
      \<and> ses_ID (session_at (RemoveClientSessions (cl_ID (client_at h c)) sm) r) = sid
      \<and> (\<forall>e. Initiator (session_at (RemoveClientSessions (cl_ID (client_at h c)) sm) r) = Some e
            \<longrightarrow> party (act(c := False)) h (RemoveClientSessions (cl_ID (client_at h c)) sm) r e)
      \<and> (\<forall>e. Responder (session_at (RemoveClientSessions (cl_ID (client_at h c)) sm) r) = Some e
            \<longrightarrow> party (act(c := False)) h (RemoveClientSessions (cl_ID (client_at h c)) sm) r e)"
    using D keep by (simp add: RemoveClientSessions_effect)
qed

lemma GetPeer_active:
  assumes "sm_inv act h sm" "GetPeer sid c h sm = Some (Some p)"
  shows "act p"
  using assms sm_invD(3,4) [OF assms(1)]
  by (auto simp: GetPeer_def Let_def party_def split: option.splits if_splits)

section \<open>The handlers\<close>

definition good :: "(client_ref \<Rightarrow> bool) \<Rightarrow> (client_ref \<Rightarrow> bool) \<Rightarrow> signal \<Rightarrow> bool" where
  "good live act w \<longleftrightarrow> hub_inv live (hub_of w) \<and> sm_inv act (hub_of w) (sm_of w) \<and> (\<forall>c. act c \<longrightarrow> live c)"

lemma good_sends: "good live act w \<Longrightarrow> only_sends (hub_of w) h \<Longrightarrow> good live act (w\<lparr>hub_of := h\<rparr>)"
  using only_sends_inv sm_inv_cong [of act "hub_of w" "sm_of w" h act] only_sends_fields(1)
  by (auto simp: good_def)

lemma good_sm: "good live act w \<Longrightarrow> sm_inv act (hub_of w) sm \<Longrightarrow> good live act (w\<lparr>sm_of := sm\<rparr>)"
  by (simp add: good_def)

lemma try_send_cases:
  assumes "good live act w" "live c"
  obtains b h where "try_send c msg (hub_of w) = Some (b, h)" "good live act (w\<lparr>hub_of := h\<rparr>)"
  using try_send_live [of live "hub_of w" c msg] try_send_only good_sends assms
  by (metis good_def)

text \<open>The one thing a client can do wrong here: register a second id, or the empty one.\<close>

definition regular_pending :: "client_ref \<Rightarrow> pending \<Rightarrow> hub \<Rightarrow> bool" where
  "regular_pending c x h \<longleftrightarrow>
     (case x of
        DoRegister reg \<Rightarrow> IsAgent (client_at h c) \<longrightarrow> reg_DeviceID reg \<noteq> [] \<and> DeviceID (client_at h c) \<in> {[], reg_DeviceID reg}
      | _ \<Rightarrow> True)"

lemma RegisterDevice_fields:
  "cl_ID (client_at (RegisterDevice now c info h) d) = cl_ID (client_at h d)"
  "send_closed (client_at (RegisterDevice now c info h) d) = send_closed (client_at h d)"
  by (auto simp: RegisterDevice_eq Let_def split: option.split)

text \<open>A segment changes the hub only by sends, a registration or a heartbeat.\<close>

lemma send_best_only: "send_best c msg w = Some w' \<Longrightarrow> only_sends (hub_of w) (hub_of w') \<and> sm_of w' = sm_of w"
  by (auto simp: send_best_def dest: try_send_only)

lemma RouteToDevice_only: "RouteToDevice d msg h = Some (ok, h') \<Longrightarrow> only_sends h h'"
  by (auto simp: RouteToDevice_def dest: try_send_only split: option.splits)

lemma handle_step_closed:
  assumes "handle_step now c x w = Some (x', w')"
  shows "send_closed (client_at (hub_of w') d) = send_closed (client_at (hub_of w) d)"
proof -
  note only = only_sends_fields(4) [OF conjunct1 [OF send_best_only]] only_sends_fields(4) [OF RouteToDevice_only]
    only_sends_fields(4) [OF try_send_only]
  show ?thesis
    using assms by (cases x) (auto simp: RegisterDevice_fields only split: option.splits prod.splits if_splits)
qed

lemma handle_step_good:
  assumes good: "good live act w" and c: "act c" and reg: "regular_pending c x (hub_of w)"
    and st: "handle_step now c x w = Some (x', w')"
  shows "good live act w'"
proof -
  have sends: "good live act w'" if "only_sends (hub_of w) (hub_of w')" "sm_of w' = sm_of w"
    using good_sends [OF good that(1)] that(2) by (simp add: good_def)
  have sm: "good live act (w\<lparr>sm_of := sm\<rparr>)" if "sm_inv act (hub_of w) sm" for sm by (rule good_sm [OF good that])
  have tables: "sm_inv act (hub_of w) (sm_of w)" "hub_inv live (hub_of w)" "live c" using good c by (simp_all add: good_def)
  have hub: "good live act (w\<lparr>hub_of := h\<rparr>)" if "hub_inv live h" "\<And>d. cl_ID (client_at h d) = cl_ID (client_at (hub_of w) d)" for h
    using good that sm_inv_cong [OF tables(1), of h act] by (simp add: good_def)
  show ?thesis
  proof (cases x)
    case (Answer msg)
    then show ?thesis using st send_best_only sends by auto
  next
    case (DoRegister r)
    then show ?thesis
      using st good reg tables RegisterDevice_inv [of live "hub_of w" c "device_of r" now]
        hub [of "RegisterDevice now c (device_of r) (hub_of w)"]
      by (auto simp: regular_pending_def device_of_def RegisterDevice_fields split: if_splits)
  next
    case (DoHeartbeat d)
    then show ?thesis using st hub [of "UpdateHeartbeat now d (hub_of w)"] UpdateHeartbeat_inv [OF tables(2)] by auto
  next
    case (DoCreate req)
    then show ?thesis using st sm CreateSession_inv [OF tables(1) c] by auto
  next
    case (DoRouteToDevice req)
    then show ?thesis using st sends RouteToDevice_only by (auto split: option.splits prod.splits)
  next
    case (DoRejectOffline req)
    then show ?thesis using st sm set_status_inv [OF tables(1)] by (auto simp: RejectSession_def)
  next
    case (DoRecord resp)
    then show ?thesis using st sm set_status_inv [OF tables(1)] AcceptSession_inv [OF tables(1) c] by (auto simp: RejectSession_def)
  next
    case (DoSend p msg k)
    then show ?thesis using st sends try_send_only by (auto split: option.splits prod.splits)
  next
    case (DoClose sid)
    then show ?thesis using st sm set_status_inv [OF tables(1)] by (auto simp: CloseSession_def)
  qed (use st good in auto)
qed

text \<open>The one panic.\<close>

lemma handle_step_panics:
  assumes inv: "hub_inv live (hub_of w)" and c: "live c" and st: "handle_step now c x w = None"
  shows "\<exists>p msg k. x = DoSend p msg k \<and> send_closed (client_at (hub_of w) p)"
proof (cases x)
  case (Answer msg)
  then show ?thesis using st try_send_live [OF inv c, of msg] by (auto simp: send_best_def)
next
  case (DoRouteToDevice req)
  let ?d = "creq_DeviceID req" and ?m = "Encode MsgTypeConnectRequest (creq_json req)"
  have none: "RouteToDevice ?d ?m (hub_of w) = None" using st DoRouteToDevice by (auto split: option.splits)
  then obtain p where p: "map_of (byDevice (hub_of w)) ?d = Some p" "try_send p ?m (hub_of w) = None"
    by (auto simp: RouteToDevice_def split: option.splits)
  then have "live p" using hub_invD(5) [OF inv, of ?d p] by simp
  then show ?thesis using try_send_live [OF inv, of p ?m] p(2) by auto
next
  case (DoSend p msg k)
  then show ?thesis using st by (auto simp: try_send_def Let_def split: option.splits prod.splits if_splits)
qed (use st in auto)

section \<open>The server\<close>

text \<open>
  A client is in the tables from its registration to its unregistration; a goroutine that has
  panicked never unregisters its client.
\<close>

definition live_at :: "signal_server \<Rightarrow> client_ref \<Rightarrow> bool" where
  "live_at s c \<longleftrightarrow> reader s c \<notin> {NotConnected, Disconnected}"

definition active_at :: "signal_server \<Rightarrow> client_ref \<Rightarrow> bool" where
  "active_at s c \<longleftrightarrow> reader s c \<notin> {NotConnected, Unregistering, Disconnected}"

definition signal_inv :: "signal_server \<Rightarrow> bool" where
  "signal_inv s \<longleftrightarrow> good (live_at s) (active_at s) (sig_of s)"

text \<open>
  Regular events: the id of a new client is not that of one in the tables, and agents register one
  nonempty device id.
\<close>

fun regular :: "event \<Rightarrow> signal_server \<Rightarrow> bool" where
  "regular (Connect c t q) s = (\<forall>d. live_at s d \<longrightarrow> cl_ID (client_at (hub_of (sig_of s)) d) \<noteq> generateClientID t)"
| "regular (Handle c now) s =
     (case reader s c of Handling x \<Rightarrow> regular_pending c x (hub_of (sig_of s)) | _ \<Rightarrow> True)"
| "regular _ s = True"

inductive regular_step :: "signal_server \<Rightarrow> signal_server \<Rightarrow> bool" where
  RegularI: "enabled e s \<Longrightarrow> regular e s \<Longrightarrow> regular_step s (occur e s)"

inductive_cases regular_stepE: "regular_step s t"

lemma signal_frame [simp]:
  "sig_of (set_reader c p s) = sig_of s" "reader (set_reader c p s) = (reader s)(c := p)"
  "writer (set_reader c p s) = writer s" "wire_out (set_reader c p s) = wire_out s" "ws_open (set_reader c p s) = ws_open s"
  "hub_of (sig_of (set_hub h s)) = h" "sm_of (sig_of (set_hub h s)) = sm_of (sig_of s)"
  "reader (set_hub h s) = reader s" "writer (set_hub h s) = writer s" "wire_out (set_hub h s) = wire_out s"
  "ws_open (set_hub h s) = ws_open s"
  "sig_of (put_wire c f s) = sig_of s" "reader (put_wire c f s) = reader s" "writer (put_wire c f s) = writer s"
  "wire_out (put_wire c f s) = (wire_out s)(c := wire_out s c @ [f])" "ws_open (put_wire c f s) = ws_open s"
  "sig_of (close_ws c s) = sig_of s" "reader (close_ws c s) = reader s" "writer (close_ws c s) = writer s"
  "wire_out (close_ws c s) = wire_out s" "ws_open (close_ws c s) = (ws_open s)(c := False)"
  by (simp_all add: set_reader_def set_hub_def put_wire_def close_ws_def)

lemma live_frame:
  "reader s' = reader s \<Longrightarrow> live_at s' = live_at s \<and> active_at s' = active_at s"
  by (simp add: live_at_def [abs_def] active_at_def [abs_def])

lemma live_set [simp]:
  "live_at (set_reader c p s) = (live_at s)(c := p \<notin> {NotConnected, Disconnected})"
  "active_at (set_reader c p s) = (active_at s)(c := p \<notin> {NotConnected, Unregistering, Disconnected})"
  by (auto simp: fun_eq_iff live_at_def active_at_def)

text \<open>A client that stays active.\<close>

lemma active_stays:
  assumes "signal_inv s" "active_at s c" "p \<notin> {NotConnected, Unregistering, Disconnected}" "good (live_at s) (active_at s) w"
    and "reader s' = (reader s)(c := p)" "sig_of s' = w"
  shows "signal_inv s'"
proof -
  have "live_at s' = live_at s" "active_at s' = active_at s"
    using assms(2,3,5) by (auto simp: fun_eq_iff live_at_def active_at_def)
  then show ?thesis using assms(4,6) by (simp add: signal_inv_def)
qed

lemma NewServer_inv: "signal_inv NewServer"
  by (simp add: signal_inv_def NewServer_def NewHandler_def NewHub_def NewSessionManager_def good_def live_at_def
      active_at_def hub_inv_def sm_inv_def no_client_def gm.ok_empty)

lemma connect_inv:
  assumes inv: "signal_inv s" and e: "reader s c = NotConnected"
    and new: "\<forall>d. live_at s d \<longrightarrow> cl_ID (client_at (hub_of (sig_of s)) d) \<noteq> generateClientID t"
  shows "signal_inv (ws_connect c t q s)"
proof -
  let ?h = "hub_of (sig_of s)"
  let ?h' = "RegisterClient c (set_client c (new_client t q) ?h)"
  have dead: "\<not> live_at s c" "\<not> active_at s c" using e by (simp_all add: live_at_def active_at_def)
  have hub: "hub_inv ((live_at s)(c := True)) ?h'"
    using inv dead new by (intro ws_connect_inv) (auto simp: signal_inv_def good_def)
  have "sm_inv ((active_at s)(c := True)) ?h' (sm_of (sig_of s))"
  proof (rule sm_inv_cong)
    show "sm_inv (active_at s) ?h (sm_of (sig_of s))" using inv by (simp add: signal_inv_def good_def)
    fix d assume "active_at s d"
    then show "cl_ID (client_at ?h' d) = cl_ID (client_at ?h d)" "((active_at s)(c := True)) d"
      using dead by (auto simp: RegisterClient_def)
  qed
  moreover have "live_at (ws_connect c t q s) = (live_at s)(c := True)"
    "active_at (ws_connect c t q s) = (active_at s)(c := True)"
    by (auto simp: fun_eq_iff ws_connect_def Let_def live_at_def active_at_def)
  moreover have "sig_of (ws_connect c t q s) = (sig_of s)\<lparr>hub_of := ?h'\<rparr>"
    by (simp add: ws_connect_def Let_def set_hub_def set_reader_def)
  ultimately show ?thesis using hub inv by (auto simp: signal_inv_def good_def)
qed

lemma message_inv: "signal_inv s \<Longrightarrow> reader s c = Reading \<Longrightarrow> signal_inv (read_message c raw s)"
  by (rule active_stays [of s c "Handling (begin_message c raw (hub_of (sig_of s)))" "sig_of s"])
    (auto simp: read_message_def active_at_def signal_inv_def)

lemma read_fails_inv: "signal_inv s \<Longrightarrow> reader s c = Reading \<Longrightarrow> signal_inv (read_fails c s)"
  by (rule active_stays [of s c Removing "sig_of s"]) (auto simp: read_fails_def active_at_def signal_inv_def)

text \<open>Where the goroutine stands after a segment.\<close>

lemma handle_next_eq:
  assumes "reader s c = Handling x"
  shows "handle_step now c x (sig_of s) = None \<Longrightarrow> handle_next now c s = close_ws c (set_reader c Panicked s)"
    and "handle_step now c x (sig_of s) = Some (x', w) \<Longrightarrow>
      handle_next now c s = set_reader c (if x' = HandlerReturned then Reading else Handling x') (s\<lparr>sig_of := w\<rparr>)"
  using assms by (auto simp: handle_next_def split: pending.split)

lemma handle_next_inv:
  assumes inv: "signal_inv s" and x: "reader s c = Handling x" and reg: "regular_pending c x (hub_of (sig_of s))"
  shows "signal_inv (handle_next now c s)"
proof -
  have act: "active_at s c" using x by (simp add: active_at_def)
  have good: "good (live_at s) (active_at s) (sig_of s)" using inv by (simp add: signal_inv_def)
  show ?thesis
  proof (cases "handle_step now c x (sig_of s)")
    case None
    then show ?thesis
      by (intro active_stays [OF inv act, of Panicked "sig_of s"]) (use good in \<open>simp_all add: handle_next_eq(1) [OF x]\<close>)
  next
    case (Some y)
    then obtain x' w where y: "handle_step now c x (sig_of s) = Some (x', w)" by (cases y) simp
    show ?thesis
      by (intro active_stays [OF inv act, of "if x' = HandlerReturned then Reading else Handling x'" w])
        (use handle_step_good [OF good act reg y] in \<open>simp_all add: handle_next_eq(2) [OF x y]\<close>)
  qed
qed

lemma remove_inv:
  assumes inv: "signal_inv s" and e: "reader s c = Removing"
  shows "signal_inv (ws_remove c s)"
proof -
  have live: "(live_at s)(c := True) = live_at s" using e by (auto simp: live_at_def fun_upd_idem)
  show ?thesis
    using inv RemoveClientSessions_inv [of "active_at s" "hub_of (sig_of s)" "sm_of (sig_of s)" c]
      live_frame [of "s\<lparr>sig_of := w\<rparr>" s for w]
    by (auto simp: ws_remove_def signal_inv_def good_def live)
qed

lemma unregister_inv:
  assumes inv: "signal_inv s" and e: "reader s c = Unregistering"
  shows "signal_inv (ws_unregister c s)"
proof -
  have "live_at s c" "\<not> active_at s c" using e by (simp_all add: live_at_def active_at_def)
  moreover have "hub_inv (live_at s) (hub_of (sig_of s))" using inv by (simp add: signal_inv_def good_def)
  ultimately obtain h where h: "UnregisterClient c (hub_of (sig_of s)) = Some h" "hub_inv ((live_at s)(c := False)) h"
    "\<forall>d. cl_ID (client_at h d) = cl_ID (client_at (hub_of (sig_of s)) d)"
    using UnregisterClient_inv by blast
  have "sm_inv (active_at s) h (sm_of (sig_of s))"
    using inv h(3) sm_inv_cong [of "active_at s" "hub_of (sig_of s)" "sm_of (sig_of s)" h "active_at s"]
    by (simp add: signal_inv_def good_def)
  moreover have "(active_at s)(c := False) = active_at s" using \<open>\<not> active_at s c\<close> by (simp add: fun_upd_idem)
  ultimately show ?thesis
    using inv h \<open>\<not> active_at s c\<close> live_frame [of "set_hub h s" s]
    by (auto simp: ws_unregister_def signal_inv_def good_def)
qed

lemma write_inv:
  assumes inv: "signal_inv s"
  shows "signal_inv (write_next c ok s)" "signal_inv (write_ping c ok s)"
proof -
  have "only_sends (hub_of (sig_of s)) (hub_of (sig_of (write_next c ok s)))"
    by (auto simp: write_next_def Let_def only_sends_def split: list.split)
  moreover have "sm_of (sig_of (write_next c ok s)) = sm_of (sig_of s)" "reader (write_next c ok s) = reader s"
    by (auto simp: write_next_def Let_def split: list.split)
  ultimately show "signal_inv (write_next c ok s)"
    using inv good_sends [of "live_at s" "active_at s" "sig_of s" "hub_of (sig_of (write_next c ok s))"]
      live_frame [of "write_next c ok s" s]
    by (auto simp: signal_inv_def good_def)
  show "signal_inv (write_ping c ok s)"
    using inv live_frame [of "write_ping c ok s" s] by (auto simp: signal_inv_def write_ping_def)
qed

lemma handle_inv: "signal_inv s \<Longrightarrow> enabled (Handle c now) s \<Longrightarrow> regular (Handle c now) s \<Longrightarrow> signal_inv (handle_next now c s)"
  by (cases "reader s c") (auto intro: handle_next_inv)

lemma regular_step_inv: "signal_inv s \<Longrightarrow> regular_step s t \<Longrightarrow> signal_inv t"
proof (erule regular_stepE)
  fix e assume "signal_inv s" "t = occur e s" "enabled e s" "regular e s"
  then show "signal_inv t"
  proof (cases e)
    case (Handle c now)
    then show ?thesis using handle_inv [OF \<open>signal_inv s\<close>] \<open>t = occur e s\<close> \<open>enabled e s\<close> \<open>regular e s\<close> by simp
  qed (simp_all add: connect_inv message_inv read_fails_inv remove_inv unregister_inv write_inv)
qed

interpretation signalling: transition_system signal_init regular_step signal_inv
  by unfold_locales (auto simp: signal_init_def NewServer_inv intro: regular_step_inv)

section \<open>Channels and connections\<close>

text \<open>
  In every run, regular or not: a client's channel is closed by its own unregistration only,
  after its connection; while the connection is open its goroutine reads; and no close message
  is ever on the wire.
\<close>

definition wire_inv :: "signal_server \<Rightarrow> bool" where
  "wire_inv s \<longleftrightarrow> (\<forall>c. (send_closed (client_at (hub_of (sig_of s)) c) \<longrightarrow> reader s c = Disconnected)
     \<and> (ws_open s c \<longrightarrow> reader s c \<notin> {NotConnected, Removing, Unregistering, Disconnected, Panicked})
     \<and> CloseMessage \<notin> set (wire_out s c))"

lemma wire_invD:
  assumes "wire_inv s"
  shows "send_closed (client_at (hub_of (sig_of s)) c) \<Longrightarrow> reader s c = Disconnected"
    "ws_open s c \<Longrightarrow> reader s c \<notin> {NotConnected, Removing, Unregistering, Disconnected, Panicked}"
    "CloseMessage \<notin> set (wire_out s c)"
  using assms unfolding wire_inv_def by blast+

lemma wire_invI:
  assumes "\<And>c. send_closed (client_at (hub_of (sig_of s)) c) \<Longrightarrow> reader s c = Disconnected"
    "\<And>c. ws_open s c \<Longrightarrow> reader s c \<notin> {NotConnected, Removing, Unregistering, Disconnected, Panicked}"
    "\<And>c. CloseMessage \<notin> set (wire_out s c)"
  shows "wire_inv s"
  using assms unfolding wire_inv_def by blast

lemma wire_handle:
  assumes inv: "wire_inv s" and x: "reader s c = Handling x"
  shows "wire_inv (handle_next now c s)"
proof (cases "handle_step now c x (sig_of s)")
  case None
  show ?thesis
    by (rule wire_invI)
      (use wire_invD [OF inv] x in \<open>auto simp: handle_next_eq(1) [OF x None] split: if_splits\<close>)
next
  case (Some y)
  then obtain x' w where y: "handle_step now c x (sig_of s) = Some (x', w)" by (cases y) simp
  show ?thesis
    by (rule wire_invI)
      (use wire_invD [OF inv] x handle_step_closed [OF y] in \<open>auto simp: handle_next_eq(2) [OF x y] split: if_splits\<close>)
qed

lemma wire_unregister:
  assumes inv: "wire_inv s" and e: "reader s c = Unregistering"
  shows "wire_inv (ws_unregister c s)"
proof -
  have "\<not> send_closed (client_at (hub_of (sig_of s)) c)" using wire_invD(1) [OF inv, of c] e by auto
  note u = UnregisterClient_eq [OF this]
  show ?thesis
    by (rule wire_invI) (use wire_invD [OF inv] e in \<open>auto simp: ws_unregister_def u Let_def split: if_splits\<close>)
qed

lemma wire_write:
  assumes inv: "wire_inv s"
  shows "wire_inv (write_next c ok s)"
proof -
  have "\<not> ws_open s c" if "send_closed (client_at (hub_of (sig_of s)) c)"
    using wire_invD(1,2) [OF inv, of c] that by auto
  then show ?thesis
    by (intro wire_invI)
      (use wire_invD [OF inv] in \<open>auto simp: write_next_def Let_def split: list.splits if_splits\<close>)
qed

lemma wire_step: "wire_inv s \<Longrightarrow> signal_step s t \<Longrightarrow> wire_inv t"
proof (erule signal_step.cases)
  fix e s' assume inv: "wire_inv s" and e: "s = s'" "t = occur e s'" "enabled e s'"
  show "wire_inv t"
  proof (cases e)
    case (Connect c tm q)
    show ?thesis
      by (rule wire_invI)
        (use wire_invD [OF inv] e Connect in \<open>auto simp: ws_connect_def Let_def RegisterClient_def new_client_def split: if_splits\<close>)
  next
    case (Message c raw)
    show ?thesis
      by (rule wire_invI) (use wire_invD [OF inv] e Message in \<open>auto simp: read_message_def split: if_splits\<close>)
  next
    case (Handle c now)
    then show ?thesis using e wire_handle [OF inv, of c _ now] by (auto split: reader_at.splits)
  next
    case (ReadError c)
    show ?thesis
      by (rule wire_invI) (use wire_invD [OF inv] e ReadError in \<open>auto simp: read_fails_def split: if_splits\<close>)
  next
    case (Remove c)
    show ?thesis
      by (rule wire_invI) (use wire_invD [OF inv] e Remove in \<open>auto simp: ws_remove_def split: if_splits\<close>)
  next
    case (Ping c ok)
    show ?thesis
      by (rule wire_invI) (use wire_invD [OF inv] e Ping in \<open>auto simp: write_ping_def split: if_splits\<close>)
  qed (use inv e wire_unregister wire_write in auto)
qed

lemma wire_init: "wire_inv NewServer"
  by (simp add: wire_inv_def NewServer_def NewHandler_def NewHub_def no_client_def)

interpretation wires: transition_system signal_init signal_step wire_inv
  by unfold_locales (auto simp: signal_init_def wire_init intro: wire_step)

lemma regular_signal_step: "regular_step s t \<Longrightarrow> signal_step s t"
  by (auto elim: regular_stepE intro: signal_step.Occur)

lemma regular_reach: "reach signal_init regular_step s \<Longrightarrow> reach signal_init signal_step s"
  by (induction rule: reach.induct) (auto intro: reach_init reach_step regular_signal_step)

section \<open>Messages handled without interruption\<close>

lemma handle_step_no_register: "handle_step now c x w = Some (x', w') \<Longrightarrow> regular_pending d x' h"
  by (cases x) (auto simp: regular_pending_def refused_def split: option.splits prod.splits if_splits after_route.splits pending.splits
      elim: routed.elims)

lemma handle_steps_run:
  assumes "reader s c = Handling x" "x \<noteq> HandlerReturned" "regular_pending c x (hub_of (sig_of s))"
    and "handle_steps n now c x (sig_of s) = Some (HandlerReturned, w)"
  shows "\<exists>t. regular_step\<^sup>*\<^sup>* s t \<and> t = set_reader c Reading (s\<lparr>sig_of := w\<rparr>)"
  using assms
proof (induction n arbitrary: s x)
  case (Suc n)
  obtain x' w' where y: "handle_step now c x (sig_of s) = Some (x', w')"
    and rest: "handle_steps n now c x' w' = Some (HandlerReturned, w)"
    using Suc.prems(4) by (auto split: option.splits)
  let ?u = "handle_next now c s"
  have step: "regular_step s ?u" using RegularI [of "Handle c now" s] Suc.prems by simp
  note eq = handle_next_eq(2) [OF Suc.prems(1) y]
  show ?case
  proof (cases "x' = HandlerReturned")
    case True
    then show ?thesis using rest step eq by (intro exI [of _ ?u]) auto
  next
    case False
    have "\<exists>t. regular_step\<^sup>*\<^sup>* ?u t \<and> t = set_reader c Reading (?u\<lparr>sig_of := w\<rparr>)"
      using False eq rest handle_step_no_register [OF y] by (intro Suc.IH [of ?u x']) (simp_all add: set_reader_def)
    moreover have "set_reader c Reading (?u\<lparr>sig_of := w\<rparr>) = set_reader c Reading (s\<lparr>sig_of := w\<rparr>)"
      using False by (simp add: eq set_reader_def)
    ultimately show ?thesis using step by (metis converse_rtranclp_into_rtranclp)
  qed
qed simp

text \<open>A message handled without interruption changes the tables as \<open>HandleMessage\<close> does.\<close>

lemma message_run:
  assumes r: "reader s c = Reading" and reg: "regular_pending c (begin_message c raw (hub_of (sig_of s))) (hub_of (sig_of s))"
    and h: "HandleMessage now c raw (sig_of s) = Some w"
  shows "regular_step\<^sup>*\<^sup>* s (s\<lparr>sig_of := w\<rparr>)"
proof -
  let ?x = "begin_message c raw (hub_of (sig_of s))" and ?u = "read_message c raw s"
  have "regular_step s ?u" using RegularI [of "Message c raw" s] r by simp
  moreover have "?x \<noteq> HandlerReturned" using segments_left_begin(1) [of c raw "hub_of (sig_of s)"] by auto
  moreover have "handle_steps 4 now c ?x (sig_of ?u) = Some (HandlerReturned, w)"
    using HandleMessage_segments [of now c raw "sig_of s"] h by (simp add: read_message_def)
  ultimately have "regular_step\<^sup>*\<^sup>* s (set_reader c Reading (?u\<lparr>sig_of := w\<rparr>))"
    using handle_steps_run [of ?u c ?x 4 now w] reg by (auto simp: read_message_def intro: converse_rtranclp_into_rtranclp)
  moreover have "set_reader c Reading (?u\<lparr>sig_of := w\<rparr>) = s\<lparr>sig_of := w\<rparr>"
    using r by (simp add: read_message_def set_reader_def fun_upd_idem)
  ultimately show ?thesis by simp
qed

end
