(* ===== verification/Signal_Properties.thy ===== *)
theory Signal_Properties
  imports Signal_Invariant "HOL-Library.Monad_Syntax"
begin

text \<open>
  What the signal server does for its clients: a connection is set up and its messages
  reach the other side and nobody else; malformed and impossible requests are answered with
  an error and change nothing else (these are properties of the handlers, \<open>HandleMessage\<close>, and
  so of the server when no other goroutine runs in between); then, in every run, what the tables
  hold, where a goroutine can panic, and what the writer puts on the wire. And where it goes
  wrong: rejections, second device ids, session ids that are taken twice, clients of the same
  second, and a send that races with a disconnect.
\<close>

section \<open>Handlers on encoded messages\<close>

lemma msg_valid: "valid_utf8 MsgTypeRegister" "valid_utf8 MsgTypeHeartbeat" "valid_utf8 MsgTypeConnectRequest"
  "valid_utf8 MsgTypeConnectResponse" "valid_utf8 MsgTypeDisconnect" "valid_utf8 MsgTypeSDPOffer"
  "valid_utf8 MsgTypeSDPAnswer" "valid_utf8 MsgTypeICECandidate" "valid_utf8 MsgTypeTransportNegotiate"
  "valid_utf8 MsgTypeTransportReady" "valid_utf8 MsgTypeError"
  by (simp_all add: msg_types ascii_valid)

lemma handle_encoded:
  "creq_ok q \<Longrightarrow> HandleMessage now c (Encode MsgTypeConnectRequest (creq_json q)) w =
     handleConnectRequest now c (Some (creq_json q)) w"
  "cresp_ok r \<Longrightarrow> HandleMessage now c (Encode MsgTypeConnectResponse (cresp_json r)) w =
     handleConnectResponse c (Some (cresp_json r)) w"
  "offer_ok ofr \<Longrightarrow> HandleMessage now c (Encode MsgTypeSDPOffer (offer_json ofr)) w =
     route_best (offer_SessionID ofr) c (Encode MsgTypeSDPOffer (offer_json ofr)) w"
  "answer_ok an \<Longrightarrow> HandleMessage now c (Encode MsgTypeSDPAnswer (answer_json an)) w =
     route_best (answer_SessionID an) c (Encode MsgTypeSDPAnswer (answer_json an)) w"
  "ice_ok i \<Longrightarrow> HandleMessage now c (Encode MsgTypeICECandidate (ice_json i)) w =
     route_best (ice_SessionID i) c (Encode MsgTypeICECandidate (ice_json i)) w"
  "tn_ok n \<Longrightarrow> HandleMessage now c (Encode MsgTypeTransportNegotiate (tn_json n)) w =
     route_best (tn_SessionID n) c (Encode MsgTypeTransportNegotiate (tn_json n)) w"
  "disc_ok d \<Longrightarrow> HandleMessage now c (Encode MsgTypeDisconnect (disc_json d)) w =
     handleDisconnect c (Some (disc_json d)) w"
  by (simp_all add: HandleMessage_def creq.envelope_Encode cresp.envelope_Encode offer.envelope_Encode
      answer.envelope_Encode ice.envelope_Encode tn.envelope_Encode disc.envelope_Encode msg_valid dispatch_def)
    (simp_all add: msg_types handleSDPOffer_def handleSDPAnswer_def handleICECandidate_def
      handleTransportNegotiate_def offer.raw_json answer.raw_json ice.raw_json tn.raw_json)

text \<open>A message is put into one client's queue.\<close>

definition deliver :: "client_ref \<Rightarrow> string \<Rightarrow> signal \<Rightarrow> signal" where
  "deliver c msg w =
     w\<lparr>hub_of := set_client c ((client_at (hub_of w) c)\<lparr>Send := Send (client_at (hub_of w) c) @ [msg]\<rparr>) (hub_of w)\<rparr>"

definition has_room :: "nat \<Rightarrow> client_ref \<Rightarrow> signal \<Rightarrow> bool" where
  "has_room n c w \<longleftrightarrow> \<not> send_closed (client_at (hub_of w) c) \<and> length (Send (client_at (hub_of w) c)) + n \<le> SendBufferSize"

lemma try_send_room: "has_room (Suc n) c w \<Longrightarrow> try_send c msg (hub_of w) = Some (True, hub_of (deliver c msg w))"
  by (simp add: try_send_def has_room_def deliver_def Let_def)

lemma deliver_frame [simp]:
  "sm_of (deliver c msg w) = sm_of w" "w\<lparr>hub_of := hub_of (deliver c msg w)\<rparr> = deliver c msg w"
  "cl_ID (client_at (hub_of (deliver c msg w)) d) = cl_ID (client_at (hub_of w) d)"
  "IsAgent (client_at (hub_of (deliver c msg w)) d) = IsAgent (client_at (hub_of w) d)"
  "DeviceID (client_at (hub_of (deliver c msg w)) d) = DeviceID (client_at (hub_of w) d)"
  "byDevice (hub_of (deliver c msg w)) = byDevice (hub_of w)" "devices (hub_of (deliver c msg w)) = devices (hub_of w)"
  "clients (hub_of (deliver c msg w)) = clients (hub_of w)"
  "(deliver c msg w)\<lparr>sm_of := sm\<rparr> = deliver c msg (w\<lparr>sm_of := sm\<rparr>)"
  "send_closed (client_at (hub_of (deliver c msg w)) d) = send_closed (client_at (hub_of w) d)"
  by (simp_all add: deliver_def)

lemma Send_deliver:
  "Send (client_at (hub_of (deliver c msg w)) d) =
     (if d = c then Send (client_at (hub_of w) c) @ [msg] else Send (client_at (hub_of w) d))"
  by (simp add: deliver_def)

lemma has_room_deliver:
  "has_room n d (deliver c msg w) \<longleftrightarrow> (if d = c then has_room (Suc n) c w else has_room n d w)"
  by (auto simp: has_room_def Send_deliver)

lemma has_room_sm [simp]: "has_room n d (w\<lparr>sm_of := sm\<rparr>) = has_room n d w"
  by (simp add: has_room_def)

lemma has_room_mono: "has_room n c w \<Longrightarrow> m \<le> n \<Longrightarrow> has_room m c w"
  by (simp add: has_room_def)

lemma GetPeer_deliver [simp]: "GetPeer sid c (hub_of (deliver d msg w)) sm = GetPeer sid c (hub_of w) sm"
  by (auto simp: GetPeer_def Let_def split: option.split intro: option.case_cong)

lemma sendError_room:
  "has_room (Suc n) c w \<Longrightarrow> sendError c ecode msg w = Some (deliver c (error_text ecode msg) w)"
  by (simp add: sendError_def send_best_def try_send_room)

lemma RouteToPeer_room:
  "GetPeer sid c (hub_of w) sm = Some (Some p) \<Longrightarrow> has_room (Suc n) p w \<Longrightarrow>
     RouteToPeer sid c msg sm (hub_of w) = Some (True, hub_of (deliver p msg w))"
  by (simp add: RouteToPeer_def try_send_room)

lemma route_best_room:
  "GetPeer sid c (hub_of w) (sm_of w) = Some (Some p) \<Longrightarrow> has_room (Suc n) p w \<Longrightarrow>
     route_best sid c msg w = Some (deliver p msg w)"
  by (simp add: route_best_def RouteToPeer_room)

section \<open>Setting up a connection\<close>

lemma connect_request_online:
  assumes q: "creq_ok q" and a: "map_of (byDevice (hub_of w)) (creq_DeviceID q) = Some a" and room: "has_room (Suc n) a w"
  shows "HandleMessage now c (Encode MsgTypeConnectRequest (creq_json q)) w =
    Some (deliver a (Encode MsgTypeConnectRequest (creq_json q))
      (w\<lparr>sm_of := CreateSession now (creq_SessionID q) c (creq_DeviceID q) (creq_Protocols q) (hub_of w) (sm_of w)\<rparr>))"
  using a try_send_room [OF room, of "Encode MsgTypeConnectRequest (creq_json q)"]
  by (simp add: handle_encoded(1) [OF q] handleConnectRequest_def creq.raw_json [OF q] Let_def RouteToDevice_def)

lemma CreateSession_lookup [simp]:
  "map_of (sessions (CreateSession now sid c d ps h sm)) i = (if i = sid then Some (next_session sm) else map_of (sessions sm) i)"
  "session_at (CreateSession now sid c d ps h sm) (next_session sm) =
     \<lparr>ses_ID = sid, Initiator = Some c, Responder = None, ses_DeviceID = d, Protocols = ps, ses_CreatedAt = now,
      Status = SessionPending\<rparr>"
  by (simp_all add: CreateSession_def Let_def)

lemma connect_response_accepted:
  assumes r: "cresp_ok r" "cresp_Accepted r" and room: "has_room (Suc n) c w"
    and ses: "map_of (sessions (sm_of w)) (cresp_SessionID r) = Some k" "Initiator (session_at (sm_of w) k) = Some c"
    and ids: "cl_ID (client_at (hub_of w) c) \<noteq> cl_ID (client_at (hub_of w) a)"
  shows "HandleMessage now a (Encode MsgTypeConnectResponse (cresp_json r)) w =
    Some (deliver c (Encode MsgTypeConnectResponse (cresp_json r))
      (w\<lparr>sm_of := snd (AcceptSession (cresp_SessionID r) a (hub_of w) (sm_of w))\<rparr>))"
proof -
  have "GetPeer (cresp_SessionID r) a (hub_of w) (snd (AcceptSession (cresp_SessionID r) a (hub_of w) (sm_of w))) = Some (Some c)"
    using ses ids by (simp add: GetPeer_def AcceptSession_def Let_def)
  then show ?thesis
    using r(2) RouteToPeer_room [OF _ room]
    by (simp add: handle_encoded(2) [OF r(1)] handleConnectResponse_def cresp.raw_json [OF r(1)] Let_def)
qed

text \<open>
  C3: setting up a connection. An app asks for a device whose agent is connected, the
  agent accepts, the app offers, the agent answers. Then the agent's queue has got exactly
  the request and the offer, the app's exactly the response and the answer, as the texts
  that were sent, nobody else's queue has changed, and the session is in the table, accepted, with the two as its
  ends. (Both must have room for two messages and different client ids.)
\<close>

theorem connection_established:
  assumes payloads: "creq_ok q" "cresp_ok r" "cresp_Accepted r" "offer_ok ofr" "answer_ok an"
    and sid: "cresp_SessionID r = creq_SessionID q" "offer_SessionID ofr = creq_SessionID q" "answer_SessionID an = creq_SessionID q"
    and online: "map_of (byDevice (hub_of w)) (creq_DeviceID q) = Some a"
    and ids: "cl_ID (client_at (hub_of w) c) \<noteq> cl_ID (client_at (hub_of w) a)"
    and room: "has_room 2 c w" "has_room 2 a w"
  shows "\<exists>w' k. HandleMessage t1 c (Encode MsgTypeConnectRequest (creq_json q)) w
        \<bind> HandleMessage t2 a (Encode MsgTypeConnectResponse (cresp_json r))
        \<bind> HandleMessage t3 c (Encode MsgTypeSDPOffer (offer_json ofr))
        \<bind> HandleMessage t4 a (Encode MsgTypeSDPAnswer (answer_json an)) = Some w'
    \<and> Send (client_at (hub_of w') a) = Send (client_at (hub_of w) a)
        @ [Encode MsgTypeConnectRequest (creq_json q), Encode MsgTypeSDPOffer (offer_json ofr)]
    \<and> Send (client_at (hub_of w') c) = Send (client_at (hub_of w) c)
        @ [Encode MsgTypeConnectResponse (cresp_json r), Encode MsgTypeSDPAnswer (answer_json an)]
    \<and> (\<forall>d. d \<notin> {a, c} \<longrightarrow> client_at (hub_of w') d = client_at (hub_of w) d)
    \<and> GetSession (creq_SessionID q) (sm_of w') = Some k
    \<and> session_at (sm_of w') k = \<lparr>ses_ID = creq_SessionID q, Initiator = Some c, Responder = Some a,
         ses_DeviceID = creq_DeviceID q, Protocols = creq_Protocols q, ses_CreatedAt = t1, Status = SessionAccepted\<rparr>"
proof -
  let ?sid = "creq_SessionID q" and ?h = "hub_of w" and ?k = "next_session (sm_of w)"
  let ?sm1 = "CreateSession t1 ?sid c (creq_DeviceID q) (creq_Protocols q) ?h (sm_of w)"
  let ?w1 = "deliver a (Encode MsgTypeConnectRequest (creq_json q)) (w\<lparr>sm_of := ?sm1\<rparr>)"
  let ?sm2 = "snd (AcceptSession ?sid a ?h ?sm1)"
  let ?w2 = "deliver c (Encode MsgTypeConnectResponse (cresp_json r)) (?w1\<lparr>sm_of := ?sm2\<rparr>)"
  let ?w3 = "deliver a (Encode MsgTypeSDPOffer (offer_json ofr)) ?w2"
  let ?w4 = "deliver c (Encode MsgTypeSDPAnswer (answer_json an)) ?w3"
  have ne: "c \<noteq> a" using ids by blast
  have 1: "HandleMessage t1 c (Encode MsgTypeConnectRequest (creq_json q)) w = Some ?w1"
    using connect_request_online [OF payloads(1) online] room(2) by (simp add: numeral_2_eq_2)
  have acc: "AcceptSession ?sid a (hub_of ?w1) ?sm1 = AcceptSession ?sid a ?h ?sm1"
    by (simp add: AcceptSession_def deliver_def)
  have 2: "HandleMessage t2 a (Encode MsgTypeConnectResponse (cresp_json r)) ?w1 = Some ?w2"
    using connect_response_accepted [OF payloads(2,3), of 0 c ?w1 ?k a t2] room(1) ids ne sid(1) acc
    by (simp add: has_room_deliver numeral_2_eq_2 has_room_mono)
  have peers: "GetPeer ?sid c ?h ?sm2 = Some (Some a)" "GetPeer ?sid a ?h ?sm2 = Some (Some c)"
    using ids by (simp_all add: GetPeer_def AcceptSession_def Let_def)
  have 3: "HandleMessage t3 c (Encode MsgTypeSDPOffer (offer_json ofr)) ?w2 = Some ?w3"
    using peers(1) room(2) ne sid(2)
    by (simp add: handle_encoded(3) [OF payloads(4)] route_best_room [of _ _ _ _ 0] has_room_deliver numeral_2_eq_2)
  have 4: "HandleMessage t4 a (Encode MsgTypeSDPAnswer (answer_json an)) ?w3 = Some ?w4"
    using peers(2) room(1) ne sid(3)
    by (simp add: handle_encoded(4) [OF payloads(5)] route_best_room [of _ _ _ _ 0] has_room_deliver numeral_2_eq_2)
  have ses: "GetSession ?sid ?sm2 = Some ?k" "session_at ?sm2 ?k = \<lparr>ses_ID = ?sid, Initiator = Some c, Responder = Some a,
         ses_DeviceID = creq_DeviceID q, Protocols = creq_Protocols q, ses_CreatedAt = t1, Status = SessionAccepted\<rparr>"
    by (simp_all add: GetSession_def AcceptSession_def)
  show ?thesis
  proof (intro exI [of _ ?w4] exI [of _ ?k] conjI)
    show "\<forall>d. d \<notin> {a, c} \<longrightarrow> client_at (hub_of ?w4) d = client_at ?h d" by (simp add: deliver_def)
  qed (use 1 2 3 4 ne ses in \<open>simp_all add: Send_deliver\<close>)
qed

text \<open>An app (client 2) and the agent of a device (client 3), connected.\<close>

definition demo_hub :: hub where
  "demo_hub = RegisterDevice 0 3
     \<lparr>dev_ID = ''dev'', dev_Name = ''n'', dev_Platform = PlatformLinux, dev_Version = ''1'', dev_PublicKey = [],
      dev_Registered = 0, dev_LastSeen = 0\<rparr>
     (RegisterClient 3 (set_client 3 (new_client ''20260102030406'' ''agent'')
       (RegisterClient 2 (set_client 2 (new_client ''20260102030405'' []) NewHub))))"

definition demo :: signal where
  "demo = \<lparr>hub_of = demo_hub, sm_of = NewSessionManager\<rparr>"

lemma demo_hub_simps:
  "byDevice (hub_of demo) = [(''dev'', 3)]"
  "client_at (hub_of demo) 2 = new_client ''20260102030405'' []"
  "client_at (hub_of demo) 3 = (new_client ''20260102030406'' ''agent'')\<lparr>DeviceID := ''dev''\<rparr>"
  "sm_of demo = NewSessionManager"
  by (simp_all add: demo_def demo_hub_def RegisterDevice_def RegisterClient_def NewHub_def Let_def set_DeviceID_def)

lemma demo_room: "n \<le> SendBufferSize \<Longrightarrow> has_room n 2 demo" "n \<le> SendBufferSize \<Longrightarrow> has_room n 3 demo"
  by (simp_all add: has_room_def demo_hub_simps new_client_def)

definition demo_request :: ConnectRequestPayload where
  "demo_request = \<lparr>creq_SessionID = ''s1'', creq_DeviceID = ''dev'', creq_Protocols = Some [''ssh'']\<rparr>"

lemma demo_request_ok: "creq_ok demo_request" "creq_SessionID demo_request = ''s1''" "creq_DeviceID demo_request = ''dev''"
  by (simp_all add: demo_request_def creq_ok_def strings_ok_def ascii_valid)

theorem connection_established_witness:
  "\<exists>w'. Send (client_at (hub_of w') 3) =
      [Encode MsgTypeConnectRequest (creq_json demo_request),
       Encode MsgTypeSDPOffer (offer_json \<lparr>offer_SessionID = ''s1'', offer_SDP = ''o''\<rparr>)]
    \<and> HandleMessage 7 2 (Encode MsgTypeConnectRequest (creq_json demo_request)) demo
        \<bind> HandleMessage 8 3 (Encode MsgTypeConnectResponse
             (cresp_json \<lparr>cresp_SessionID = ''s1'', cresp_Accepted = True, cresp_Reason = []\<rparr>))
        \<bind> HandleMessage 9 2 (Encode MsgTypeSDPOffer (offer_json \<lparr>offer_SessionID = ''s1'', offer_SDP = ''o''\<rparr>))
        \<bind> HandleMessage 9 3 (Encode MsgTypeSDPAnswer (answer_json \<lparr>answer_SessionID = ''s1'', answer_SDP = ''a''\<rparr>))
        = Some w'"
proof -
  have "cl_ID (client_at (hub_of demo) 2) \<noteq> cl_ID (client_at (hub_of demo) 3)"
    by (simp add: demo_hub_simps new_client_def generateClientID_def)
  then show ?thesis
    using connection_established [of demo_request "\<lparr>cresp_SessionID = ''s1'', cresp_Accepted = True, cresp_Reason = []\<rparr>"
        "\<lparr>offer_SessionID = ''s1'', offer_SDP = ''o''\<rparr>" "\<lparr>answer_SessionID = ''s1'', answer_SDP = ''a''\<rparr>" demo 3 2 7 8 9 9]
      demo_room [of 2] demo_request_ok
    by (auto simp: cresp_ok_def offer_ok_def answer_ok_def ascii_valid demo_hub_simps new_client_def SendBufferSize_def)
qed

section \<open>Messages within a session\<close>

text \<open>The texts that ask for routing within a session, and whether they close it as well.\<close>

definition session_message :: "string \<Rightarrow> string \<Rightarrow> bool \<Rightarrow> bool" where
  "session_message sid msg closing \<longleftrightarrow>
     (\<exists>x. offer_ok x \<and> offer_SessionID x = sid \<and> msg = Encode MsgTypeSDPOffer (offer_json x) \<and> \<not> closing)
     \<or> (\<exists>x. answer_ok x \<and> answer_SessionID x = sid \<and> msg = Encode MsgTypeSDPAnswer (answer_json x) \<and> \<not> closing)
     \<or> (\<exists>x. ice_ok x \<and> ice_SessionID x = sid \<and> msg = Encode MsgTypeICECandidate (ice_json x) \<and> \<not> closing)
     \<or> (\<exists>x. tn_ok x \<and> tn_SessionID x = sid \<and> msg = Encode MsgTypeTransportNegotiate (tn_json x) \<and> \<not> closing)
     \<or> (\<exists>x. disc_ok x \<and> disc_SessionID x = sid \<and> msg = Encode MsgTypeDisconnect (disc_json x) \<and> closing)"

definition close_if :: "bool \<Rightarrow> string \<Rightarrow> signal \<Rightarrow> signal" where
  "close_if closing sid w = (if closing then w\<lparr>sm_of := snd (CloseSession sid (sm_of w))\<rparr> else w)"

text \<open>A client gets a message if it has room for it.\<close>

definition queue_for :: "client_ref \<Rightarrow> string \<Rightarrow> signal \<Rightarrow> signal" where
  "queue_for p msg w = (if length (Send (client_at (hub_of w) p)) < SendBufferSize then deliver p msg w else w)"

lemma session_message_handled:
  assumes "session_message sid msg closing"
  shows "HandleMessage now c msg w = map_option (close_if closing sid) (route_best sid c msg w)"
  using assms
proof -
  have "close_if True sid = (\<lambda>w. w\<lparr>sm_of := snd (CloseSession sid (sm_of w))\<rparr>)" "close_if False sid = (\<lambda>w. w)" for sid
    by (simp_all add: fun_eq_iff close_if_def)
  then show ?thesis
    using assms by (auto simp: session_message_def handle_encoded handleDisconnect_def disc.raw_json option.map_ident)
qed

lemma route_best_to:
  assumes "GetPeer sid c (hub_of w) (sm_of w) = Some (Some p)" "\<not> send_closed (client_at (hub_of w) p)"
  shows "route_best sid c msg w = Some (queue_for p msg w)"
  using assms by (auto simp: route_best_def RouteToPeer_def queue_for_def try_send_def deliver_def Let_def)

lemma route_best_nowhere:
  assumes "GetPeer sid c (hub_of w) (sm_of w) \<in> {None, Some None}"
  shows "route_best sid c msg w = Some w"
  using assms by (auto simp: route_best_def RouteToPeer_def)

text \<open>
  C14: messages of a session go to its other end. An offer, an answer, a candidate, a transport
  proposal or a disconnect that names a session is put, as the text that was sent, into the queue
  of the responder if the initiator sent it, and of the initiator if the responder sent it,
  provided the queue has room; nothing else changes, except that a disconnect, whoever sends it, closes the
  session. Sent by anybody else, in a session that has no responder yet, or for a session
  that does not exist, it is dropped. The status of the session plays no part: a closed or rejected one
  goes on routing.
\<close>

theorem session_messages_routed:
  assumes msg: "session_message sid msg closing"
  shows "(\<forall>k a b. GetSession sid (sm_of w) = Some k \<and> Initiator (session_at (sm_of w) k) = Some a
          \<and> Responder (session_at (sm_of w) k) = Some b \<and> cl_ID (client_at (hub_of w) a) \<noteq> cl_ID (client_at (hub_of w) b)
          \<and> \<not> send_closed (client_at (hub_of w) a) \<and> \<not> send_closed (client_at (hub_of w) b) \<longrightarrow>
        HandleMessage now a msg w = Some (close_if closing sid (queue_for b msg w))
        \<and> HandleMessage now b msg w = Some (close_if closing sid (queue_for a msg w))
        \<and> (\<forall>c. cl_ID (client_at (hub_of w) c) \<notin> {cl_ID (client_at (hub_of w) a), cl_ID (client_at (hub_of w) b)} \<longrightarrow>
             HandleMessage now c msg w = Some (close_if closing sid w)))
    \<and> (\<forall>k a c. GetSession sid (sm_of w) = Some k \<and> Initiator (session_at (sm_of w) k) = Some a
          \<and> Responder (session_at (sm_of w) k) = None \<longrightarrow> HandleMessage now c msg w = Some (close_if closing sid w))
    \<and> (\<forall>c. GetSession sid (sm_of w) = None \<longrightarrow> HandleMessage now c msg w = Some w)"
proof (intro conjI allI impI; (elim conjE)?)
  note M = session_message_handled [OF msg]
  fix k a b
  assume k: "GetSession sid (sm_of w) = Some k" "Initiator (session_at (sm_of w) k) = Some a"
      "Responder (session_at (sm_of w) k) = Some b"
    and ids: "cl_ID (client_at (hub_of w) a) \<noteq> cl_ID (client_at (hub_of w) b)"
    and alive: "\<not> send_closed (client_at (hub_of w) a)" "\<not> send_closed (client_at (hub_of w) b)"
  have "GetPeer sid a (hub_of w) (sm_of w) = Some (Some b)" "GetPeer sid b (hub_of w) (sm_of w) = Some (Some a)"
    using k ids by (simp_all add: GetPeer_def GetSession_def)
  then show "HandleMessage now a msg w = Some (close_if closing sid (queue_for b msg w))"
    "HandleMessage now b msg w = Some (close_if closing sid (queue_for a msg w))"
    using alive by (simp_all add: M route_best_to)
  fix c assume "cl_ID (client_at (hub_of w) c) \<notin> {cl_ID (client_at (hub_of w) a), cl_ID (client_at (hub_of w) b)}"
  then have "GetPeer sid c (hub_of w) (sm_of w) = None" using k by (auto simp: GetPeer_def GetSession_def)
  then show "HandleMessage now c msg w = Some (close_if closing sid w)" by (simp add: M route_best_nowhere)
next
  fix k a c
  assume "GetSession sid (sm_of w) = Some k" "Initiator (session_at (sm_of w) k) = Some a" "Responder (session_at (sm_of w) k) = None"
  then have "GetPeer sid c (hub_of w) (sm_of w) \<in> {None, Some None}" by (auto simp: GetPeer_def GetSession_def Let_def)
  then show "HandleMessage now c msg w = Some (close_if closing sid w)"
    using session_message_handled [OF msg] by (simp add: route_best_nowhere)
next
  fix c assume "GetSession sid (sm_of w) = None"
  then have "GetPeer sid c (hub_of w) (sm_of w) = None" "close_if closing sid w = w"
    by (simp_all add: GetPeer_def GetSession_def close_if_def CloseSession_def set_status_def)
  then show "HandleMessage now c msg w = Some w" using session_message_handled [OF msg] by (simp add: route_best_nowhere)
qed

text \<open>The session of the example, accepted by client 3.\<close>

definition demo_session :: signal where
  "demo_session = demo\<lparr>sm_of := snd (AcceptSession ''s1'' 3 demo_hub (CreateSession 7 ''s1'' 2 ''dev'' None demo_hub NewSessionManager))\<rparr>"

lemma demo_session_simps:
  "hub_of demo_session = demo_hub"
  "GetPeer ''s1'' 2 demo_hub (sm_of demo_session) = Some (Some 3)" "GetPeer ''s1'' 3 demo_hub (sm_of demo_session) = Some (Some 2)"
  "sessions (sm_of demo_session) = [(''s1'', 0)]"
  by (simp_all add: demo_session_def demo_def GetPeer_def AcceptSession_def demo_hub_def RegisterDevice_def RegisterClient_def
      NewHub_def Let_def set_DeviceID_def new_client_def generateClientID_def)
    (simp add: CreateSession_def NewSessionManager_def Let_def)

theorem session_messages_routed_witness:
  "HandleMessage 7 2 (Encode MsgTypeICECandidate (ice_json \<lparr>ice_SessionID = ''s1'', ice_Candidate = ''c''\<rparr>)) demo_session =
     Some (deliver 3 (Encode MsgTypeICECandidate (ice_json \<lparr>ice_SessionID = ''s1'', ice_Candidate = ''c''\<rparr>)) demo_session)"
proof -
  let ?x = "\<lparr>ice_SessionID = ''s1'', ice_Candidate = ''c''\<rparr>"
  have "session_message ''s1'' (Encode MsgTypeICECandidate (ice_json ?x)) False"
    unfolding session_message_def by (intro disjI2 disjI1 exI [of _ ?x]) (simp add: ice_ok_def ascii_valid)
  moreover have "GetSession ''s1'' (sm_of demo_session) = Some 0" "Initiator (session_at (sm_of demo_session) 0) = Some 2"
    "Responder (session_at (sm_of demo_session) 0) = Some 3"
    by (simp_all add: GetSession_def demo_session_simps(4))
      (simp_all add: demo_session_def AcceptSession_def CreateSession_def NewSessionManager_def Let_def)
  moreover have "client_at demo_hub 2 = new_client ''20260102030405'' []"
    "client_at demo_hub 3 = (new_client ''20260102030406'' ''agent'')\<lparr>DeviceID := ''dev''\<rparr>"
    using demo_hub_simps(2,3) by (simp_all add: demo_def)
  ultimately show ?thesis
    using conjunct1 [OF session_messages_routed [of "''s1''" _ False demo_session 7], rule_format, of _ 0 2 3]
    by (simp add: demo_session_simps(1) new_client_def generateClientID_def close_if_def queue_for_def SendBufferSize_def)
qed

section \<open>Errors\<close>







section \<open>Rejected connections\<close>

text \<open>
  C37: a rejection never reaches the app. When the agent refuses a pending request, the server
  records the rejection but looks for the agent among the two ends of the session, where it was never
  entered: the agent is told \<open>route_failed\<close>, and the app that waits for the
  answer hears nothing.
\<close>

theorem rejection_not_delivered:
  assumes r: "cresp_ok r" "\<not> cresp_Accepted r" and room: "has_room 1 a w"
    and ses: "GetSession (cresp_SessionID r) (sm_of w) = Some k"
      "Initiator (session_at (sm_of w) k) = Some c" "Responder (session_at (sm_of w) k) = None"
    and ids: "cl_ID (client_at (hub_of w) c) \<noteq> cl_ID (client_at (hub_of w) a)"
  shows "\<exists>w'. HandleMessage now a (Encode MsgTypeConnectResponse (cresp_json r)) w = Some w'
    \<and> Send (client_at (hub_of w') a) = Send (client_at (hub_of w) a) @ [error_text ''route_failed'' ''failed to route response to peer'']
    \<and> (\<forall>d. d \<noteq> a \<longrightarrow> client_at (hub_of w') d = client_at (hub_of w) d)
    \<and> Status (session_at (sm_of w') k) = SessionRejected"
proof -
  let ?sm = "snd (RejectSession (cresp_SessionID r) (sm_of w))"
  let ?w = "deliver a (error_text ''route_failed'' ''failed to route response to peer'') (w\<lparr>sm_of := ?sm\<rparr>)"
  have "GetPeer (cresp_SessionID r) a (hub_of w) ?sm = None"
    using ses ids by (simp add: GetPeer_def GetSession_def RejectSession_def set_status_def)
  then have "HandleMessage now a (Encode MsgTypeConnectResponse (cresp_json r)) w = Some ?w"
    using r room sendError_room [of 0 a "w\<lparr>sm_of := ?sm\<rparr>"]
    by (simp add: handle_encoded(2) handleConnectResponse_def cresp.raw_json Let_def RouteToPeer_def)
  moreover have "Status (session_at ?sm k) = SessionRejected"
    using ses(1) by (simp add: GetSession_def RejectSession_def set_status_def)
  ultimately show ?thesis by (simp add: Send_deliver) (simp add: deliver_def)
qed

theorem rejection_not_delivered_witness:
  "\<exists>w w'. HandleMessage 7 2 (Encode MsgTypeConnectRequest (creq_json demo_request)) demo = Some w
    \<and> HandleMessage 8 3 (Encode MsgTypeConnectResponse
        (cresp_json \<lparr>cresp_SessionID = ''s1'', cresp_Accepted = False, cresp_Reason = ''busy''\<rparr>)) w = Some w'
    \<and> Send (client_at (hub_of w') 2) = []"
proof -
  let ?r = "\<lparr>cresp_SessionID = ''s1'', cresp_Accepted = False, cresp_Reason = ''busy''\<rparr>"
  have online: "map_of (byDevice (hub_of demo)) (creq_DeviceID demo_request) = Some 3"
    by (simp add: demo_hub_simps demo_request_ok)
  let ?w = "deliver 3 (Encode MsgTypeConnectRequest (creq_json demo_request))
    (demo\<lparr>sm_of := CreateSession 7 ''s1'' 2 ''dev'' (creq_Protocols demo_request) (hub_of demo) (sm_of demo)\<rparr>)"
  have 1: "HandleMessage 7 2 (Encode MsgTypeConnectRequest (creq_json demo_request)) demo = Some ?w"
    using connect_request_online [OF demo_request_ok(1) online demo_room(2) [of 1, unfolded One_nat_def]]
    by (simp add: SendBufferSize_def demo_request_ok)
  have 2: "\<exists>w'. HandleMessage 8 3 (Encode MsgTypeConnectResponse (cresp_json ?r)) ?w = Some w'
    \<and> Send (client_at (hub_of w') 3) = Send (client_at (hub_of ?w) 3) @ [error_text ''route_failed'' ''failed to route response to peer'']
    \<and> (\<forall>d. d \<noteq> 3 \<longrightarrow> client_at (hub_of w') d = client_at (hub_of ?w) d)
    \<and> Status (session_at (sm_of w') (next_session (sm_of demo))) = SessionRejected"
    using demo_room(2) [of "Suc 1"]
    by (intro rejection_not_delivered [where c = 2])
      (simp_all add: cresp_ok_def ascii_valid has_room_deliver SendBufferSize_def GetSession_def
        demo_hub_simps(2,3) new_client_def generateClientID_def)
  have "client_at (hub_of ?w) 2 = client_at (hub_of demo) 2" by (simp add: deliver_def)
  then have "Send (client_at (hub_of ?w) 2) = []" by (simp add: demo_hub_simps new_client_def)
  with 1 2 show ?thesis by fastforce
qed

section \<open>Runs\<close>



text \<open>
  C11: the tables are exact. In the same runs a client id leads to a client exactly from that
  client's registration to its unregistration, a device id leads to an agent exactly while an agent that
  registered it (last) is in the tables, and the device has its description in the device list exactly
  then. (A client whose goroutine has panicked is never unregistered, and stays.)
\<close>

theorem tables_exact:
  assumes "reach signal_init regular_step s"
  shows "(map_of (clients (hub_of (sig_of s))) i = Some c \<longleftrightarrow>
      reader s c \<notin> {NotConnected, Disconnected} \<and> cl_ID (client_at (hub_of (sig_of s)) c) = i)
    \<and> (FindClientByDevice d (hub_of (sig_of s)) = Some c \<longleftrightarrow>
      reader s c \<notin> {NotConnected, Disconnected} \<and> IsAgent (client_at (hub_of (sig_of s)) c)
      \<and> DeviceID (client_at (hub_of (sig_of s)) c) = d \<and> d \<noteq> [])
    \<and> (d \<in> dev_ID ` set (ListDevices (hub_of (sig_of s))) \<longleftrightarrow> (\<exists>c. FindClientByDevice d (hub_of (sig_of s)) = Some c))"
proof -
  let ?h = "hub_of (sig_of s)"
  have inv: "hub_inv (live_at s) ?h"
    using signalling.reach_inv [OF assms] by (simp add: signal_inv_def good_def)
  have "d \<in> dev_ID ` set (ListDevices ?h) \<longleftrightarrow> map_of (devices ?h) d \<noteq> None"
  proof
    assume "d \<in> dev_ID ` set (ListDevices ?h)"
    then obtain e x where ex: "(e, x) \<in> set (devices ?h)" "dev_ID x = d" by (auto simp: ListDevices_def)
    then have "map_of (devices ?h) e = Some x" using hub_invD(8) [OF inv] by (simp add: gomap_ok_def)
    then show "map_of (devices ?h) d \<noteq> None" using hub_invD(7) [OF inv, of e x] ex by simp
  next
    assume "map_of (devices ?h) d \<noteq> None"
    then obtain x where "map_of (devices ?h) d = Some x" by blast
    then show "d \<in> dev_ID ` set (ListDevices ?h)"
      using hub_invD(7) [OF inv, of d x] by (force simp: ListDevices_def dest: map_of_SomeD)
  qed
  then show ?thesis
    using hub_invD(4) [OF inv, of i c] hub_invD(5) [OF inv, of d c] hub_invD(6) [OF inv, of d]
    by (simp add: live_at_def FindClientByDevice_def)
qed

lemma demo_reach: "reach signal_init regular_step (ws_connect 2 ''20260102030405'' ''agent'' NewServer)"
proof (rule reach_step)
  show "reach signal_init regular_step NewServer" by (simp add: reach_init signal_init_def)
  show "regular_step NewServer (ws_connect 2 ''20260102030405'' ''agent'' NewServer)"
    using RegularI [of "Connect 2 ''20260102030405'' ''agent''" NewServer]
    by (simp add: NewServer_def live_at_def)
qed


theorem tables_exact_witness:
  "map_of (clients (hub_of (sig_of (ws_connect 2 ''20260102030405'' ''agent'' NewServer)))) ''cl-20260102030405'' = Some 2"
  using tables_exact [OF demo_reach, of "''cl-20260102030405''" 2 "[]"]
  by (simp add: ws_connect_def Let_def RegisterClient_def new_client_def generateClientID_def)

lemma writer_empties:
  assumes "Send (client_at (hub_of (sig_of s)) c) = q" "ws_open s c"
  shows "let s' = (write_next c True ^^ length q) s
    in client_at (hub_of (sig_of s')) c = (client_at (hub_of (sig_of s)) c)\<lparr>Send := []\<rparr>
       \<and> wire_out s' = (wire_out s)(c := wire_out s c @ map TextMessage q)
       \<and> reader s' = reader s \<and> writer s' = writer s"
  using assms
proof (induction q arbitrary: s)
  case Nil
  then show ?case by (simp add: Let_def)
next
  case (Cons m q)
  let ?s = "write_next c True s"
  have step: "client_at (hub_of (sig_of ?s)) c = (client_at (hub_of (sig_of s)) c)\<lparr>Send := q\<rparr>" "ws_open ?s c"
    "wire_out ?s = (wire_out s)(c := wire_out s c @ [TextMessage m])" "reader ?s = reader s" "writer ?s = writer s"
    using Cons.prems by (simp_all add: write_next_def Let_def)
  have "Send (client_at (hub_of (sig_of ?s)) c) = q" by (simp add: step)
  note IH = Cons.IH [OF this step(2)]
  have unroll: "(write_next c True ^^ length (m # q)) s = (write_next c True ^^ length q) ?s"
    by (simp add: funpow_swap1)
  show ?case using IH unfolding unroll Let_def step by simp
qed

text \<open>
  C29: the writer sends the queue in order, and ends without a close message. In every run: while the
  connection is open and the network takes what is written, the writer puts exactly the queued messages
  on the wire, oldest first, and empties the queue. Once \<open>readPump\<close> has closed the connection,
  nothing more gets on the wire, and the writer returns at the next message, at the next ping, or when
  it finds the channel closed. The channel is only ever closed after the connection: the close message
  with which the writer means to end is never sent.
\<close>

theorem writer_flushes:
  assumes "reach signal_init signal_step s" and "q = Send (client_at (hub_of (sig_of s)) c)"
  shows "(ws_open s c \<longrightarrow> (let s' = (write_next c True ^^ length q) s
        in client_at (hub_of (sig_of s')) c = (client_at (hub_of (sig_of s)) c)\<lparr>Send := []\<rparr>
           \<and> wire_out s' = (wire_out s)(c := wire_out s c @ map TextMessage q)
           \<and> reader s' = reader s \<and> writer s' = writer s))
    \<and> (\<not> ws_open s c \<longrightarrow> wire_out (write_next c ok s) = wire_out s \<and> wire_out (write_ping c ok s) = wire_out s
        \<and> writer (write_ping c ok s) c = WriterReturned
        \<and> (q \<noteq> [] \<or> send_closed (client_at (hub_of (sig_of s)) c) \<longrightarrow> writer (write_next c ok s) c = WriterReturned))
    \<and> (send_closed (client_at (hub_of (sig_of s)) c) \<longrightarrow> \<not> ws_open s c)
    \<and> CloseMessage \<notin> set (wire_out s c)"
proof (intro conjI impI)
  have inv: "wire_inv s" using assms(1) by (rule wires.reach_inv)
  show "\<not> ws_open s c" if "send_closed (client_at (hub_of (sig_of s)) c)"
    using wire_invD(1,2) [OF inv, of c] that by auto
  show "CloseMessage \<notin> set (wire_out s c)" by (rule wire_invD(3) [OF inv])
  show "let s' = (write_next c True ^^ length q) s
        in client_at (hub_of (sig_of s')) c = (client_at (hub_of (sig_of s)) c)\<lparr>Send := []\<rparr>
           \<and> wire_out s' = (wire_out s)(c := wire_out s c @ map TextMessage q)
           \<and> reader s' = reader s \<and> writer s' = writer s" if "ws_open s c"
    by (rule writer_empties) (simp_all add: that assms(2))
qed (use assms(2) in \<open>auto simp: write_next_def write_ping_def Let_def split: list.split\<close>)

theorem writer_flushes_witness:
  "CloseMessage \<notin> set (wire_out (ws_connect 2 ''20260102030405'' ''agent'' NewServer) 2)"
  using writer_flushes [OF regular_reach [OF demo_reach] refl] by blast

section \<open>Where it goes wrong\<close>

text \<open>
  C38: a second device id outlives its agent. An agent that registers another id keeps the
  first one as well; when it leaves, only the last one is removed. From then on the first device still
  looks connected, and every request for it panics in the goroutine of the app that sent it.
\<close>

theorem second_device_id_panics:
  assumes "map_of (byDevice h) d = Some a" "dev_ID info \<noteq> d" "\<not> send_closed (client_at h a)"
    and "creq_ok q" "creq_DeviceID q = d"
  shows "\<exists>h'. UnregisterClient a (RegisterDevice now a info h) = Some h'
    \<and> FindClientByDevice d h' = Some a \<and> map_of (devices h') d = map_of (devices h) d
    \<and> HandleMessage t c (Encode MsgTypeConnectRequest (creq_json q)) \<lparr>hub_of = h', sm_of = sm\<rparr> = None"
proof -
  let ?h = "RegisterDevice now a info h"
  have reg: "map_of (byDevice ?h) d = Some a" "map_of (devices ?h) d = map_of (devices h) d"
    "DeviceID (client_at ?h a) = dev_ID info" "\<not> send_closed (client_at ?h a)"
    using assms(1-3) by (auto simp: RegisterDevice_eq Let_def split: option.split)
  obtain h' where h': "UnregisterClient a ?h = Some h'"
    using UnregisterClient_eq [OF reg(4)] by (simp add: Let_def)
  then have after: "map_of (byDevice h') d = Some a" "map_of (devices h') d = map_of (devices h) d" "send_closed (client_at h' a)"
    using reg assms(2) UnregisterClient_eq [OF reg(4)] by (auto simp: Let_def)
  have "HandleMessage t c (Encode MsgTypeConnectRequest (creq_json q)) \<lparr>hub_of = h', sm_of = sm\<rparr> = None"
    using after assms(5)
    by (simp add: handle_encoded(1) [OF assms(4)] handleConnectRequest_def creq.raw_json [OF assms(4)] RouteToDevice_def try_send_def)
  with h' after show ?thesis by (simp add: FindClientByDevice_def)
qed

theorem second_device_id_panics_witness:
  "\<exists>h'. UnregisterClient 3 (RegisterDevice 9 3 \<lparr>dev_ID = ''other'', dev_Name = [], dev_Platform = [], dev_Version = [],
        dev_PublicKey = [], dev_Registered = 0, dev_LastSeen = 0\<rparr> demo_hub) = Some h'
    \<and> HandleMessage 10 2 (Encode MsgTypeConnectRequest (creq_json demo_request)) \<lparr>hub_of = h', sm_of = NewSessionManager\<rparr> = None"
  using second_device_id_panics [of demo_hub "''dev''" 3 "\<lparr>dev_ID = ''other'', dev_Name = [], dev_Platform = [], dev_Version = [],
        dev_PublicKey = [], dev_Registered = 0, dev_LastSeen = 0\<rparr>" demo_request 9 10 2 NewSessionManager]
    demo_hub_simps demo_request_ok
  by (auto simp: demo_def new_client_def)

lemma connect_request_sessions:
  assumes q: "creq_ok q" and step: "HandleMessage now m (Encode MsgTypeConnectRequest (creq_json q)) w = Some w'"
  shows "GetSession (creq_SessionID q) (sm_of w') = Some (next_session (sm_of w))"
    "Initiator (session_at (sm_of w') (next_session (sm_of w))) = Some m"
    "Responder (session_at (sm_of w') (next_session (sm_of w))) = None"
    "cl_ID (client_at (hub_of w') d) = cl_ID (client_at (hub_of w) d)"
proof -
  let ?sm = "CreateSession now (creq_SessionID q) m (creq_DeviceID q) (creq_Protocols q) (hub_of w) (sm_of w)"
  let ?sm' = "snd (RejectSession (creq_SessionID q) ?sm)"
  have ids: "cl_ID (client_at h' d) = cl_ID (client_at h d)" if "try_send e msg h = Some (b, h')" for e msg h b h'
    using only_sends_fields(1) [OF try_send_only [OF that]] .
  have "sm_of w' \<in> {?sm, ?sm'} \<and> cl_ID (client_at (hub_of w') d) = cl_ID (client_at (hub_of w) d)"
    using step ids
    by (auto simp: handle_encoded(1) [OF q] handleConnectRequest_def creq.raw_json [OF q] Let_def RouteToDevice_def
        sendError_def send_best_def split: option.splits bool.splits)
  then show "GetSession (creq_SessionID q) (sm_of w') = Some (next_session (sm_of w))"
    "Initiator (session_at (sm_of w') (next_session (sm_of w))) = Some m"
    "Responder (session_at (sm_of w') (next_session (sm_of w))) = None"
    "cl_ID (client_at (hub_of w') d) = cl_ID (client_at (hub_of w) d)"
    by (auto simp: GetSession_def RejectSession_def set_status_def)
qed

text \<open>
  C39: session ids belong to nobody. The app chooses the id, and the server takes it as it
  comes. If a third client asks for any device, connected or not, under the id of a session that is in use, the two
  ends of that session are cut off from each other; and if it accepts the session, though it was asked of another
  device, it becomes the other end and gets the messages the app sends.
\<close>

theorem session_id_not_owned:
  assumes third: "cl_ID (client_at (hub_of w) c) \<noteq> cl_ID (client_at (hub_of w) m)"
      "cl_ID (client_at (hub_of w) a) \<noteq> cl_ID (client_at (hub_of w) m)"
  shows "(creq_ok q \<and> HandleMessage now m (Encode MsgTypeConnectRequest (creq_json q)) w = Some w' \<longrightarrow>
      GetPeer (creq_SessionID q) c (hub_of w') (sm_of w') = None \<and> GetPeer (creq_SessionID q) a (hub_of w') (sm_of w') = None)
    \<and> (cresp_ok r \<and> cresp_Accepted r \<and> has_room 1 c w
        \<and> GetSession (cresp_SessionID r) (sm_of w) = Some k \<and> Initiator (session_at (sm_of w) k) = Some c \<longrightarrow>
      (\<exists>w''. HandleMessage now m (Encode MsgTypeConnectResponse (cresp_json r)) w = Some w''
        \<and> GetPeer (cresp_SessionID r) c (hub_of w'') (sm_of w'') = Some (Some m)))"
proof (intro conjI impI; elim conjE)
  assume q: "creq_ok q" "HandleMessage now m (Encode MsgTypeConnectRequest (creq_json q)) w = Some w'"
  note D = connect_request_sessions [OF q]
  have other: "GetPeer (creq_SessionID q) e (hub_of w') (sm_of w') = None"
    if "cl_ID (client_at (hub_of w) e) \<noteq> cl_ID (client_at (hub_of w) m)" for e
    using D(1) that unfolding GetSession_def by (simp add: GetPeer_def D(2,3,4) Let_def)
  show "GetPeer (creq_SessionID q) c (hub_of w') (sm_of w') = None" "GetPeer (creq_SessionID q) a (hub_of w') (sm_of w') = None"
    by (rule other, rule third)+
next
  assume r: "cresp_ok r" "cresp_Accepted r" and room: "has_room 1 c w"
    and k: "GetSession (cresp_SessionID r) (sm_of w) = Some k" "Initiator (session_at (sm_of w) k) = Some c"
  have "HandleMessage now m (Encode MsgTypeConnectResponse (cresp_json r)) w = Some (deliver c (Encode MsgTypeConnectResponse (cresp_json r))
      (w\<lparr>sm_of := snd (AcceptSession (cresp_SessionID r) m (hub_of w) (sm_of w))\<rparr>))"
    using connect_response_accepted [OF r, of 0 c w k m now] room k third by (simp add: GetSession_def)
  moreover have "GetPeer (cresp_SessionID r) c (hub_of w) (snd (AcceptSession (cresp_SessionID r) m (hub_of w) (sm_of w))) = Some (Some m)"
    using k by (simp add: GetPeer_def AcceptSession_def GetSession_def)
  ultimately show "\<exists>w''. HandleMessage now m (Encode MsgTypeConnectResponse (cresp_json r)) w = Some w''
        \<and> GetPeer (cresp_SessionID r) c (hub_of w'') (sm_of w'') = Some (Some m)" by simp
qed

theorem session_id_not_owned_witness:
  "\<exists>w'. HandleMessage 8 5 (Encode MsgTypeConnectResponse
        (cresp_json \<lparr>cresp_SessionID = ''s1'', cresp_Accepted = True, cresp_Reason = []\<rparr>)) demo_session = Some w'
    \<and> GetPeer ''s1'' 2 (hub_of w') (sm_of w') = Some (Some 5)"
proof -
  let ?r = "\<lparr>cresp_SessionID = ''s1'', cresp_Accepted = True, cresp_Reason = []\<rparr>"
  have ids: "cl_ID (client_at (hub_of demo_session) 2) \<noteq> cl_ID (client_at (hub_of demo_session) 5)"
    "cl_ID (client_at (hub_of demo_session) 3) \<noteq> cl_ID (client_at (hub_of demo_session) 5)"
    by (simp_all add: demo_session_simps demo_hub_def RegisterDevice_def RegisterClient_def NewHub_def Let_def set_DeviceID_def
        new_client_def generateClientID_def no_client_def)
  have "has_room 1 2 demo_session" using demo_room(1) [of 1] by (simp add: demo_session_def SendBufferSize_def)
  moreover have "GetSession ''s1'' (sm_of demo_session) = Some 0" "Initiator (session_at (sm_of demo_session) 0) = Some 2"
    by (simp_all add: GetSession_def demo_session_simps(4))
      (simp add: demo_session_def AcceptSession_def CreateSession_def NewSessionManager_def Let_def)
  ultimately show ?thesis
    using session_id_not_owned [OF ids, of demo_request 8 demo ?r 0] by (simp add: cresp_ok_def ascii_valid)
qed

text \<open>
  C40: clients that connect within one second share an id. The second one takes the first
  one's place in the client table; when the first one leaves, the second is no longer found although it is still reading,
  and the sessions either of them has are removed. And if an agent accepts the
  request of an app that connected in the same second, the peer the server finds
  for the agent is the agent itself: what it sends comes back to it and never reaches the app.
\<close>

theorem same_second_clients:
  assumes two: "c \<noteq> d" and s': "s' = ws_connect d t q2 (ws_connect c t q1 s)"
  shows "map_of (clients (hub_of (sig_of s'))) (generateClientID t) = Some d
    \<and> (\<exists>s''. s'' = ws_unregister c (ws_remove c (read_fails c s')) \<and> reader s'' d = Reading \<and> \<not> send_closed (client_at (hub_of (sig_of s'')) d)
        \<and> RouteToClient (generateClientID t) msg (hub_of (sig_of s'')) = Some (False, hub_of (sig_of s'')))
    \<and> (r \<in> set (client_sessions (generateClientID t) sm) \<longrightarrow>
        GetSession (ses_ID (session_at sm r)) (RemoveClientSessions (cl_ID (client_at (hub_of (sig_of s')) c)) sm) = None)
    \<and> (GetSession sid sm = Some k \<and> Initiator (session_at sm k) = Some c \<longrightarrow>
        GetPeer sid d (hub_of (sig_of s')) (snd (AcceptSession sid d (hub_of (sig_of s')) sm)) = Some (Some d))"
proof (intro conjI impI)
  let ?h = "hub_of (sig_of s')"
  have h: "client_at ?h c = new_client t q1" "client_at ?h d = new_client t q2"
    "map_of (clients ?h) (generateClientID t) = Some d" "reader s' d = Reading"
    using two by (simp_all add: s' ws_connect_def Let_def RegisterClient_def new_client_def)
  then show "map_of (clients ?h) (generateClientID t) = Some d" by simp
  have "\<not> send_closed (client_at ?h c)" "\<not> send_closed (client_at ?h d)" by (simp_all add: h new_client_def)
  then obtain h' where "UnregisterClient c ?h = Some h'"
    "map_of (clients h') (generateClientID t) = None" "\<not> send_closed (client_at h' d)"
    using UnregisterClient_eq [of ?h c] two h(1) by (simp add: Let_def new_client_def)
  then show "\<exists>s''. s'' = ws_unregister c (ws_remove c (read_fails c s')) \<and> reader s'' d = Reading \<and> \<not> send_closed (client_at (hub_of (sig_of s'')) d)
        \<and> RouteToClient (generateClientID t) msg (hub_of (sig_of s'')) = Some (False, hub_of (sig_of s''))"
    using two h(4) by (simp add: ws_unregister_def ws_remove_def read_fails_def RouteToClient_def)
  show "GetSession (ses_ID (session_at sm r)) (RemoveClientSessions (cl_ID (client_at ?h c)) sm) = None"
    if "r \<in> set (client_sessions (generateClientID t) sm)"
    using that by (simp add: h new_client_def GetSession_def RemoveClientSessions_effect)
  show "GetPeer sid d ?h (snd (AcceptSession sid d ?h sm)) = Some (Some d)"
    if "GetSession sid sm = Some k \<and> Initiator (session_at sm k) = Some c"
    using that h(1,2) by (simp add: GetPeer_def AcceptSession_def GetSession_def new_client_def)
qed

theorem same_second_clients_witness:
  "map_of (clients (hub_of (sig_of (ws_connect 3 ''20260102030405'' ''agent'' (ws_connect 2 ''20260102030405'' [] NewServer))))) ''cl-20260102030405''
     = Some 3"
  using same_second_clients [of 2 3 "ws_connect 3 ''20260102030405'' ''agent'' (ws_connect 2 ''20260102030405'' [] NewServer)"
      "''20260102030405''" "''agent''" "[]" NewServer]
  by (simp add: generateClientID_def)

section \<open>The send that races with a disconnect\<close>








end
