(* ===== verification/GoTime.thy ===== *)
theory GoTime
  imports Prelude
begin

text \<open>
  The two layouts of \<open>time.Format\<close> the program uses: \<open>20060102150405\<close> in client and session
  ids, and \<open>2006-01-02T15:04:05Z\<close> in the REST API. A time is a number of nanoseconds since
  1970; local time is \<open>zone\<close> seconds ahead of it. The date is that of the proleptic Gregorian
  calendar, computed in years that begin in March.
\<close>

definition civil :: "int \<Rightarrow> int \<times> int \<times> int" where
  "civil days =
     (let z = days + 719468;
          era = z div 146097;
          doe = z mod 146097;
          yoe = (doe - doe div 1460 + doe div 36524 - doe div 146096) div 365;
          doy = doe - (365 * yoe + yoe div 4 - yoe div 100);
          mp = (5 * doy + 2) div 153;
          d = doy - (153 * mp + 2) div 5 + 1;
          m = (if mp < 10 then mp + 3 else mp - 9);
          y = yoe + era * 400
      in (if m \<le> 2 then y + 1 else y, m, d))"

definition pad :: "nat \<Rightarrow> string \<Rightarrow> string" where
  "pad k s = replicate (k - length s) CHR ''0'' @ s"

definition show_pad :: "nat \<Rightarrow> int \<Rightarrow> string" where
  "show_pad k i = (if i < 0 then ''-'' @ pad k (show_nat (nat (- i))) else pad k (show_nat (nat i)))"

text \<open>Year, month, day, hour, minute, second of a local time.\<close>

definition clock :: "int \<Rightarrow> int \<Rightarrow> int \<times> int \<times> int \<times> int \<times> int \<times> int" where
  "clock zone ns =
     (let s = ns div 1000000000 + zone; t = s mod 86400; (y, m, d) = civil (s div 86400)
      in (y, m, d, t div 3600, t mod 3600 div 60, t mod 60))"

definition compact_time :: "int \<Rightarrow> int \<Rightarrow> string" where
  "compact_time zone ns =
     (let (y, m, d, hh, mm, ss) = clock zone ns
      in show_pad 4 y @ show_pad 2 m @ show_pad 2 d @ show_pad 2 hh @ show_pad 2 mm @ show_pad 2 ss)"

definition format_time :: "int \<Rightarrow> int \<Rightarrow> string" where
  "format_time zone ns =
     (let (y, m, d, hh, mm, ss) = clock zone ns
      in show_pad 4 y @ ''-'' @ show_pad 2 m @ ''-'' @ show_pad 2 d @ ''T'' @ show_pad 2 hh @ '':''
           @ show_pad 2 mm @ '':'' @ show_pad 2 ss @ ''Z'')"

text \<open>Both depend on the second alone.\<close>

lemma compact_time_second: "s div 1000000000 = t div 1000000000 \<Longrightarrow> compact_time zone s = compact_time zone t"
  by (simp add: compact_time_def clock_def)

text \<open>
  The \<open>Z\<close> of the second layout is a plain letter: the local time is printed with it, in
  whatever zone, so equal instants print differently on servers in different zones.
\<close>

lemma format_time_zone: "format_time zone ns = format_time 0 (ns + zone * 1000000000)"
  by (simp add: format_time_def clock_def add.commute)

lemma civil_examples:
  "civil 0 = (1970, 1, 1)" "civil 11016 = (2000, 2, 29)" "civil 20599 = (2026, 5, 26)" "civil (- 1) = (1969, 12, 31)"
  by code_simp+

lemma format_time_examples:
  "format_time 0 1767323045000000007 = ''2026-01-02T03:04:05Z''" "compact_time 3600 1767323045000000007 = ''20260102040405''"
  by code_simp+

end
