(* ===== verification/Device_API.thy ===== *)
theory Device_API
  imports Signal_Invariant GoTime
begin

text \<open>
  \<open>internal/api/device.go\<close>: the REST API over the hub and the session manager. Each handler
  is a function of the tables and of the response written so far. Go iterates over a map in
  no particular order; here it is the order of the table. \<open>zone\<close> is the server's time zone.
\<close>

section \<open>Responses\<close>

definition add_header :: "string \<Rightarrow> string \<Rightarrow> http_response \<Rightarrow> http_response" where
  "add_header k v r = r\<lparr>resp_headers := AList.update k v (resp_headers r)\<rparr>"

text \<open>A \<open>json.Encoder\<close> ends what it writes with a newline.\<close>

definition writeJSON :: "nat \<Rightarrow> json \<Rightarrow> http_response \<Rightarrow> http_response" where
  "writeJSON status data r =
     (let r1 = add_header ''Content-Type'' ''application/json'' r
      in r1\<lparr>resp_status := status, resp_body := resp_body r1 @ marshal data @ [CHR 0x0A]\<rparr>)"

definition writeError :: "nat \<Rightarrow> string \<Rightarrow> http_response \<Rightarrow> http_response" where
  "writeError status message r =
     (let r1 = add_header ''Content-Type'' ''application/json'' r
      in r1\<lparr>resp_status := status, resp_body := resp_body r1 @ marshal (JObj [(''error'', JStr message)]) @ [CHR 0x0A]\<rparr>)"

record DeviceResponse =
  dr_ID :: string
  dr_Name :: string
  dr_Platform :: string
  dr_Version :: string
  dr_Online :: bool
  dr_Registered :: string
  dr_LastSeen :: string

definition dr_json :: "DeviceResponse \<Rightarrow> json" where
  "dr_json x = JObj [(''id'', JStr (dr_ID x)), (''name'', JStr (dr_Name x)), (''platform'', JStr (dr_Platform x)),
     (''version'', JStr (dr_Version x)), (''online'', JBool (dr_Online x)), (''registered'', JStr (dr_Registered x)),
     (''last_seen'', JStr (dr_LastSeen x))]"

definition device_response :: "int \<Rightarrow> DeviceInfo \<Rightarrow> DeviceResponse" where
  "device_response zone d = \<lparr>dr_ID = dev_ID d, dr_Name = dev_Name d, dr_Platform = dev_Platform d,
     dr_Version = dev_Version d, dr_Online = True, dr_Registered = format_time zone (dev_Registered d),
     dr_LastSeen = format_time zone (dev_LastSeen d)\<rparr>"

record SessionResponse =
  sr_ID :: string
  sr_DeviceID :: string
  sr_Status :: string
  sr_Protocols :: string
  sr_CreatedAt :: string

definition sr_json :: "SessionResponse \<Rightarrow> json" where
  "sr_json x = JObj [(''id'', JStr (sr_ID x)), (''device_id'', JStr (sr_DeviceID x)), (''status'', JStr (sr_Status x)),
     (''protocols'', JStr (sr_Protocols x)), (''created_at'', JStr (sr_CreatedAt x))]"

definition session_response :: "int \<Rightarrow> signal_session \<Rightarrow> SessionResponse" where
  "session_response zone x = \<lparr>sr_ID = ses_ID x, sr_DeviceID = ses_DeviceID x, sr_Status = status_string (Status x),
     sr_Protocols = [], sr_CreatedAt = format_time zone (ses_CreatedAt x)\<rparr>"

record StatsResponse =
  DevicesOnline :: nat
  SessionsActive :: nat

definition stats_json :: "StatsResponse \<Rightarrow> json" where
  "stats_json x = JObj [(''devices_online'', JNum (show_nat (DevicesOnline x))),
     (''sessions_active'', JNum (show_nat (SessionsActive x)))]"

section \<open>Handlers\<close>

definition api_ListDevices :: "int \<Rightarrow> signal \<Rightarrow> http_response \<Rightarrow> http_response" where
  "api_ListDevices zone w r =
     writeJSON 200 (JArr (map (\<lambda>d. dr_json (device_response zone d)) (ListDevices (hub_of w)))) r"

definition GetDevice :: "int \<Rightarrow> string \<Rightarrow> signal \<Rightarrow> http_response \<Rightarrow> http_response" where
  "GetDevice zone deviceID w r =
     (if deviceID = [] then writeError 400 ''missing device ID'' r
      else case FindClientByDevice deviceID (hub_of w) of
             None \<Rightarrow> writeError 404 (''device not found: '' @ deviceID) r
           | Some c \<Rightarrow>
               (case FindDeviceByClient c (hub_of w) of
                  None \<Rightarrow> writeError 404 (''device not found: '' @ deviceID) r
                | Some dev \<Rightarrow> writeJSON 200 (dr_json (device_response zone dev)) r))"

definition api_ListSessions :: "int \<Rightarrow> signal \<Rightarrow> http_response \<Rightarrow> http_response" where
  "api_ListSessions zone w r =
     writeJSON 200 (JArr (map (\<lambda>x. sr_json (session_response zone x)) (ListSessions (sm_of w)))) r"

definition GetStats :: "signal \<Rightarrow> http_response \<Rightarrow> http_response" where
  "GetStats w r =
     writeJSON 200 (stats_json \<lparr>DevicesOnline = length (ListDevices (hub_of w)),
       SessionsActive = length (ListSessions (sm_of w))\<rparr>) r"

text \<open>\<open>RegisterRoutes\<close>: the patterns, on the segments of the path; \<open>GET\<close> patterns match \<open>HEAD\<close> too.\<close>

definition api_route :: "int \<Rightarrow> string \<Rightarrow> string list \<Rightarrow> (signal \<Rightarrow> http_response \<Rightarrow> http_response) option" where
  "api_route zone req_method path =
     (if req_method \<notin> {''GET'', ''HEAD''} then None
      else case path of
             [a, b, x] \<Rightarrow>
               if [a, b] \<noteq> [''api'', ''v1''] then None
               else if x = ''devices'' then Some (api_ListDevices zone)
               else if x = ''sessions'' then Some (api_ListSessions zone)
               else if x = ''stats'' then Some GetStats else None
           | [a, b, x, d] \<Rightarrow>
               if [a, b, x] = [''api'', ''v1'', ''devices''] \<and> d \<noteq> [] then Some (GetDevice zone d) else None
           | _ \<Rightarrow> None)"

section \<open>Properties\<close>











text \<open>
  Outside regular runs the answer may be about another device: once an agent has
  registered a second id, asking for the first one returns the second.
\<close>

lemma GetDevice_second_id:
  assumes "map_of (byDevice h) d = Some a" "d \<noteq> []" "dev_ID info \<notin> {d, []}"
  shows "\<exists>x. dev_ID x = dev_ID info \<and>
    GetDevice zone d \<lparr>hub_of = RegisterDevice now a info h, sm_of = sm\<rparr> r = writeJSON 200 (dr_json (device_response zone x)) r"
proof -
  have "map_of (byDevice (RegisterDevice now a info h)) d = Some a"
    "DeviceID (client_at (RegisterDevice now a info h) a) = dev_ID info"
    "map_of (devices (RegisterDevice now a info h)) (dev_ID info) = Some (info\<lparr>dev_Registered :=
       (case map_of (devices h) (dev_ID info) of None \<Rightarrow> now | Some x \<Rightarrow> dev_Registered x), dev_LastSeen := now\<rparr>)"
    using assms by (auto simp: RegisterDevice_eq Let_def)
  then show ?thesis
    using assms by (simp add: GetDevice_def FindClientByDevice_def FindDeviceByClient_def)
      (metis DeviceInfo.select_convs(1) DeviceInfo.surjective DeviceInfo.update_convs(6,7))
qed

text \<open>The list of active sessions and their count include the closed and the rejected ones.\<close>

lemma closed_sessions_listed:
  "length (ListSessions (snd (CloseSession sid sm))) = length (ListSessions sm)"
  by (simp add: ListSessions_def CloseSession_def set_status_def split: option.split)

end
