(* ===== verification/Frame.thy ===== *)
theory Frame
  imports GoIO
begin

text \<open>
  \<open>internal/protocol/frame.go\<close>: the frame of the multiplexing protocol, its wire format,
  the two decoders (\<open>UnmarshalBinary\<close> on a byte slice, \<open>ReadFrom\<close> on a reader) and the
  printed names. Frames form a self-delimiting codec; \<open>ReadFrom\<close> implements a parser of the
  byte stream, so it does not depend on how the transport cuts the stream into pieces; and
  both decoders accept exactly the encodings.
\<close>

section \<open>Data\<close>

record frame =
  StreamID :: "16 word"
  Type :: byte
  Payload :: "byte list"

definition StreamControl :: "16 word" where "StreamControl = 0x0000"
definition StreamSSH :: "16 word" where "StreamSSH = 0x0001"
definition StreamShell :: "16 word" where "StreamShell = 0x0002"
definition StreamRDP :: "16 word" where "StreamRDP = 0x0003"
definition StreamDocker :: "16 word" where "StreamDocker = 0x0004"
definition StreamVNC :: "16 word" where "StreamVNC = 0x0005"

definition FrameData :: byte where "FrameData = 0x01"
definition FrameOpenStream :: byte where "FrameOpenStream = 0x02"
definition FrameCloseStream :: byte where "FrameCloseStream = 0x03"
definition FrameWindowUpdate :: byte where "FrameWindowUpdate = 0x04"
definition FramePing :: byte where "FramePing = 0x05"
definition FramePong :: byte where "FramePong = 0x06"

definition FrameHeaderSize :: nat where "FrameHeaderSize = 7"

definition MaxPayloadSize :: nat where "MaxPayloadSize = 64 * 1024"

lemmas frame_consts =
  StreamControl_def StreamSSH_def StreamShell_def StreamRDP_def StreamDocker_def StreamVNC_def
  FrameData_def FrameOpenStream_def FrameCloseStream_def FrameWindowUpdate_def FramePing_def
  FramePong_def

datatype frame_error =
    FrameTooShort
  | FrameTruncated nat nat
  | PayloadTooLarge nat nat
  | ReadingHeader io_error
  | ReadingPayload io_error

section \<open>Encoding and decoding\<close>

definition MarshalBinary :: "frame \<Rightarrow> frame_error + byte list" where
  "MarshalBinary f =
     (if MaxPayloadSize < length (Payload f) then Inl (PayloadTooLarge (length (Payload f)) MaxPayloadSize)
      else Inr (put_uint16 (StreamID f) @ [Type f] @ put_uint32 (word_of_nat (length (Payload f)))
        @ Payload f))"

text \<open>
  \<open>UnmarshalBinary\<close> fills the receiver \<open>f\<close>: an error after the header leaves the stream
  and the type already stored.
\<close>

definition UnmarshalBinary :: "byte list \<Rightarrow> frame \<Rightarrow> frame_error option \<times> frame" where
  "UnmarshalBinary data f =
     (if length data < FrameHeaderSize then (Some FrameTooShort, f)
      else
        let f = f\<lparr>StreamID := get_uint16 (take 2 data), Type := data ! 2\<rparr>;
            len = unat (get_uint32 (take 4 (drop 3 data)))
        in if length data < FrameHeaderSize + len
           then (Some (FrameTruncated len (length data - FrameHeaderSize)), f)
           else if MaxPayloadSize < len then (Some (PayloadTooLarge len MaxPayloadSize), f)
           else (None, f\<lparr>Payload := take len (drop FrameHeaderSize data)\<rparr>))"

text \<open>\<open>WriteTo\<close>: the number of bytes written and the error, on the connection it writes.\<close>

definition WriteTo :: "frame \<Rightarrow> conn \<Rightarrow> (nat \<times> (frame_error + io_error) option) \<times> conn" where
  "WriteTo f w =
     (case MarshalBinary f of
        Inl e \<Rightarrow> ((0, Some (Inl e)), w)
      | Inr data \<Rightarrow>
          (case conn_write data w of
             (err, w') \<Rightarrow> ((length (tx w') - length (tx w), map_option Inr err), w')))"

text \<open>\<open>ReadFrom\<close> on any reader: the header, the length check, the payload.\<close>

definition ReadFrom :: "'r reader \<Rightarrow> ('r, frame_error, frame) io" where
  "ReadFrom rd =
     io_bind (io_wrap ReadingHeader (read_full rd FrameHeaderSize)) (\<lambda>header.
       let streamID = get_uint16 (take 2 header);
           frameType = header ! 2;
           len = unat (get_uint32 (take 4 (drop 3 header)))
       in if MaxPayloadSize < len then io_fail (PayloadTooLarge len MaxPayloadSize)
          else io_bind (if 0 < len then io_wrap ReadingPayload (read_full rd len) else io_ret [])
            (\<lambda>payload. io_ret \<lparr>StreamID = streamID, Type = frameType, Payload = payload\<rparr>))"

text \<open>What \<open>ReadFrom\<close> does to the stream of bytes.\<close>

definition parse_frame :: "(frame_error, frame) parser" where
  "parse_frame =
     p_bind (p_wrap ReadingHeader (p_full FrameHeaderSize)) (\<lambda>header.
       let streamID = get_uint16 (take 2 header);
           frameType = header ! 2;
           len = unat (get_uint32 (take 4 (drop 3 header)))
       in if MaxPayloadSize < len then p_fail (PayloadTooLarge len MaxPayloadSize)
          else p_bind (if 0 < len then p_wrap ReadingPayload (p_full len) else p_ret [])
            (\<lambda>payload. p_ret \<lparr>StreamID = streamID, Type = frameType, Payload = payload\<rparr>))"

section \<open>Names\<close>

definition FrameType_String :: "byte \<Rightarrow> string" where
  "FrameType_String t =
     (if t = FrameData then ''DATA''
      else if t = FrameOpenStream then ''OPEN_STREAM''
      else if t = FrameCloseStream then ''CLOSE_STREAM''
      else if t = FrameWindowUpdate then ''WINDOW_UPDATE''
      else if t = FramePing then ''PING''
      else if t = FramePong then ''PONG''
      else ''UNKNOWN('' @ show_nat (unat t) @ '')'')"

definition StreamID_String :: "16 word \<Rightarrow> string" where
  "StreamID_String s =
     (if s = StreamControl then ''control''
      else if s = StreamSSH then ''ssh''
      else if s = StreamShell then ''shell''
      else if s = StreamRDP then ''rdp''
      else if s = StreamDocker then ''docker''
      else if s = StreamVNC then ''vnc''
      else ''stream-'' @ show_nat (unat s))"

section \<open>The wire format\<close>

text \<open>A frame fits the wire when its payload is at most 64 KiB; then this is its encoding.\<close>

definition frame_fits :: "frame \<Rightarrow> bool" where
  "frame_fits f \<longleftrightarrow> length (Payload f) \<le> MaxPayloadSize"

definition frame_bytes :: "frame \<Rightarrow> byte list" where
  "frame_bytes f = put_uint16 (StreamID f) @ [Type f]
     @ put_uint32 (word_of_nat (length (Payload f))) @ Payload f"

lemma MarshalBinary_fits: "frame_fits f \<Longrightarrow> MarshalBinary f = Inr (frame_bytes f)"
  by (simp add: MarshalBinary_def frame_fits_def frame_bytes_def)

lemma MarshalBinary_eq_Inr: "MarshalBinary f = Inr bs \<longleftrightarrow> frame_fits f \<and> bs = frame_bytes f"
  by (auto simp: MarshalBinary_def frame_fits_def frame_bytes_def)

lemma length_frame_bytes: "length (frame_bytes f) = FrameHeaderSize + length (Payload f)"
  by (simp add: frame_bytes_def FrameHeaderSize_def)

lemma unat_payload_length [simp]:
  "frame_fits f \<Longrightarrow> unat (word_of_nat (length (Payload f)) :: 32 word) = length (Payload f)"
  by (simp add: frame_fits_def MaxPayloadSize_def unat_of_nat)

text \<open>The three fields of a header, read off the front of an encoding.\<close>

lemma header_fields:
  "take 2 (frame_bytes f @ rest) = put_uint16 (StreamID f)"
  "(frame_bytes f @ rest) ! 2 = Type f"
  "take 4 (drop 3 (frame_bytes f @ rest)) = put_uint32 (word_of_nat (length (Payload f)))"
  "drop FrameHeaderSize (frame_bytes f @ rest) = Payload f @ rest"
  by (simp_all add: frame_bytes_def FrameHeaderSize_def nth_append put_uint16_def put_uint32_def
      eval_nat_numeral)

lemma UnmarshalBinary_bytes:
  assumes "frame_fits f"
  shows "UnmarshalBinary (frame_bytes f @ rest) g =
    (None, g\<lparr>StreamID := StreamID f, Type := Type f, Payload := Payload f\<rparr>)"
  using assms unfolding UnmarshalBinary_def header_fields
  by (simp add: length_frame_bytes frame_fits_def [symmetric] not_less)
    (simp add: frame_fits_def)

section \<open>\<open>ReadFrom\<close> implements the parser\<close>

context io_reader
begin

lemma impl_ReadFrom: "implements stream ending good (ReadFrom rd) parse_frame"
  unfolding ReadFrom_def parse_frame_def Let_def
  by (intro impl_bind impl_wrap impl_full)
    (auto intro!: impl_fail impl_bind impl_ret impl_wrap impl_full)

text \<open>Hence its result depends on the stream alone, and it always returns.\<close>

lemma ReadFrom_stream:
  assumes "good r"
  obtains r' where "ReadFrom rd r = Some (fst (parse_frame (stream r) (ending r)), r')"
    and "stream r' = snd (parse_frame (stream r) (ending r))"
    and "ending r' = ending r" and "good r'"
  using impl_ReadFrom assms unfolding implements_def by blast

end

lemma parse_frame_bytes:
  assumes "frame_fits f"
  shows "parse_frame (frame_bytes f @ rest) e = (Inr f, rest)"
proof -
  have hdr: "take FrameHeaderSize (frame_bytes f @ rest) = put_uint16 (StreamID f) @ [Type f]
      @ put_uint32 (word_of_nat (length (Payload f)))"
    by (simp add: frame_bytes_def FrameHeaderSize_def)
  have fields: "take 2 (put_uint16 a @ [t] @ put_uint32 n) = put_uint16 a"
    "(put_uint16 a @ [t] @ put_uint32 n) ! 2 = t"
    "take 4 (drop 3 (put_uint16 a @ [t] @ put_uint32 n)) = put_uint32 n" for a t n
    by (simp_all add: nth_append eval_nat_numeral)
  show ?thesis
    using assms
    by (simp only: parse_frame_def p_bind_def p_wrap_def p_full_def hdr fields header_fields Let_def)
      (simp add: length_frame_bytes p_ret_def frame_fits_def [symmetric] not_less,
        auto simp: frame_fits_def)
qed

text \<open>Frames are a self-delimiting codec.\<close>

definition decode_frame :: "byte list \<Rightarrow> (frame \<times> byte list) option" where
  "decode_frame bs = (case parse_frame bs EOF of (Inr f, rest) \<Rightarrow> Some (f, rest) | (Inl _, _) \<Rightarrow> None)"

interpretation frames: codec frame_bytes decode_frame frame_fits
  by unfold_locales (simp add: decode_frame_def parse_frame_bytes)

section \<open>What the decoders accept\<close>

text \<open>
  A byte string long enough for its header is an encoding of the frame its header
  announces, followed by a rest: the decoders can only return that frame.
\<close>

lemma header_split:
  assumes "FrameHeaderSize + len \<le> length data" and "len \<le> MaxPayloadSize"
    and "len = unat (get_uint32 (take 4 (drop 3 data)))"
    and "f = \<lparr>StreamID = get_uint16 (take 2 data), Type = data ! 2,
        Payload = take len (drop FrameHeaderSize data)\<rparr>"
  shows "frame_fits f" and "data = frame_bytes f @ drop (FrameHeaderSize + len) data"
proof -
  have n: "length (Payload f) = len" using assms(1,4) by simp
  then show "frame_fits f" using assms(2) by (simp add: frame_fits_def)
  have l: "length (take 2 data) = 2" "length (take 4 (drop 3 data)) = 4"
    using assms(1) by (simp_all add: FrameHeaderSize_def)
  have m: "min (length data - FrameHeaderSize) len = len" using assms(1) by simp
  have w: "put_uint32 (word_of_nat len) = take 4 (drop 3 data)"
    using assms(3) by (simp add: put_get_uint32 [OF l(2)])
  have "data = take 2 data @ drop 2 data" by simp
  also have "drop 2 data = data ! 2 # drop 3 data"
    using assms(1) Cons_nth_drop_Suc [of 2 data] by (simp add: FrameHeaderSize_def)
  also have "drop 3 data = take 4 (drop 3 data) @ drop FrameHeaderSize data"
    using append_take_drop_id [of 4 "drop 3 data"] by (simp add: FrameHeaderSize_def)
  also have "drop FrameHeaderSize data = Payload f @ drop (FrameHeaderSize + len) data"
    using append_take_drop_id [of len "drop FrameHeaderSize data"] assms(4)
    by (simp add: add.commute)
  finally show "data = frame_bytes f @ drop (FrameHeaderSize + len) data"
    using assms(4) by (simp add: frame_bytes_def put_get_uint16 [OF l(1)] w n m)
qed

lemma UnmarshalBinary_None:
  assumes "UnmarshalBinary data g = (None, f)"
  shows "frame_fits f \<and> data = frame_bytes f @ drop (FrameHeaderSize + length (Payload f)) data"
proof -
  define len where "len = unat (get_uint32 (take 4 (drop 3 data)))"
  have c: "FrameHeaderSize + len \<le> length data" "len \<le> MaxPayloadSize"
    and f: "f = g\<lparr>StreamID := get_uint16 (take 2 data), Type := data ! 2,
        Payload := take len (drop FrameHeaderSize data)\<rparr>"
    using assms by (auto simp: UnmarshalBinary_def Let_def len_def split: if_splits)
  then have "f = \<lparr>StreamID = get_uint16 (take 2 data), Type = data ! 2,
        Payload = take len (drop FrameHeaderSize data)\<rparr>" by simp
  from header_split [OF c len_def this] c f show ?thesis by simp
qed

text \<open>The payload length announced by the first seven bytes, and the four outcomes.\<close>

definition frame_len :: "byte list \<Rightarrow> nat" where
  "frame_len s = unat (get_uint32 (take 4 (drop 3 s)))"

lemma parse_frame_cases:
  "parse_frame s e =
     (if length s < FrameHeaderSize then (Inl (ReadingHeader (short_error s e)), [])
      else if MaxPayloadSize < frame_len s
        then (Inl (PayloadTooLarge (frame_len s) MaxPayloadSize), drop FrameHeaderSize s)
      else if length s < FrameHeaderSize + frame_len s
        then (Inl (ReadingPayload (short_error (drop FrameHeaderSize s) e)), [])
      else (Inr \<lparr>StreamID = get_uint16 (take 2 s), Type = s ! 2,
              Payload = take (frame_len s) (drop FrameHeaderSize s)\<rparr>,
            drop (FrameHeaderSize + frame_len s) s))"
proof -
  let ?hd = "take FrameHeaderSize s"
  have hd: "take 2 ?hd = take 2 s" "?hd ! 2 = s ! 2" "take 4 (drop 3 ?hd) = take 4 (drop 3 s)"
    by (simp_all add: FrameHeaderSize_def take_drop)
  show ?thesis
    by (auto simp: parse_frame_def p_bind_def p_wrap_def p_full_def p_ret_def p_fail_def
        hd [unfolded take_take] hd frame_len_def Let_def add.commute)
qed

lemma parse_frame_Inr:
  assumes "parse_frame data e = (Inr f, rest)"
  shows "frame_fits f \<and> data = frame_bytes f @ rest"
proof -
  have c: "FrameHeaderSize + frame_len data \<le> length data" "frame_len data \<le> MaxPayloadSize"
    and f: "f = \<lparr>StreamID = get_uint16 (take 2 data), Type = data ! 2,
        Payload = take (frame_len data) (drop FrameHeaderSize data)\<rparr>"
    and r: "rest = drop (FrameHeaderSize + frame_len data) data"
    using assms by (auto simp: parse_frame_cases split: if_splits)
  from header_split [OF c frame_len_def f] r show ?thesis by simp
qed

lemma parse_frame_Inr_iff: "parse_frame data e = (Inr f, rest) \<longleftrightarrow> frame_fits f \<and> data = frame_bytes f @ rest"
  using parse_frame_Inr parse_frame_bytes by blast

section \<open>Several frames\<close>

text \<open>A loop of \<open>n\<close> calls of \<open>ReadFrom\<close>, as the receiving sides run it.\<close>

fun read_frames :: "'r reader \<Rightarrow> nat \<Rightarrow> ('r, frame_error, frame list) io" where
  "read_frames rd 0 = io_ret []"
| "read_frames rd (Suc n) = io_bind (ReadFrom rd) (\<lambda>f. io_bind (read_frames rd n) (\<lambda>fs. io_ret (f # fs)))"

context io_reader
begin

lemma read_frames_stream:
  assumes "good r" and "\<forall>f\<in>set fs. frame_fits f" and "stream r = concat (map frame_bytes fs) @ rest"
  shows "\<exists>r'. read_frames rd (length fs) r = Some (Inr fs, r') \<and> stream r' = rest
    \<and> ending r' = ending r \<and> good r'"
  using assms
proof (induction fs arbitrary: r)
  case Nil
  then show ?case by (simp add: io_ret_def)
next
  case (Cons f fs)
  from ReadFrom_stream [OF Cons.prems(1)] obtain r1 where
    r1: "ReadFrom rd r = Some (fst (parse_frame (stream r) (ending r)), r1)"
      "stream r1 = snd (parse_frame (stream r) (ending r))" "ending r1 = ending r" "good r1" .
  with Cons.prems have s1: "ReadFrom rd r = Some (Inr f, r1)"
    "stream r1 = concat (map frame_bytes fs) @ rest"
    by (simp_all add: parse_frame_bytes)
  with Cons.IH [OF r1(4)] Cons.prems r1(3) show ?case
    by (fastforce simp: io_bind_def io_ret_def)
qed

end

section \<open>Properties\<close>

text \<open>
  C2: round trip of the frame codec. A frame whose payload is at most 64 KiB is encoded
  without error into its 7-byte header and its payload, and decoding those bytes, whatever
  follows them and whatever the receiver held before, gives back exactly that frame.
\<close>

theorem frame_roundtrip:
  fixes f g :: frame
  assumes "length (Payload f) \<le> MaxPayloadSize"
  shows "\<exists>bs. MarshalBinary f = Inr bs \<and> length bs = FrameHeaderSize + length (Payload f)
    \<and> UnmarshalBinary (bs @ rest) g = (None, f)"
  using assms
  by (intro exI [of _ "frame_bytes f"])
    (simp add: MarshalBinary_fits frame_fits_def [symmetric] UnmarshalBinary_bytes length_frame_bytes)

theorem frame_roundtrip_witness:
  "\<exists>bs. MarshalBinary \<lparr>StreamID = StreamShell, Type = FrameData, Payload = [104, 105]\<rparr> = Inr bs
    \<and> length bs = FrameHeaderSize + length (Payload \<lparr>StreamID = StreamShell, Type = FrameData, Payload = [104, 105]\<rparr>)
    \<and> UnmarshalBinary (bs @ [1]) \<lparr>StreamID = 0, Type = 0, Payload = []\<rparr>
        = (None, \<lparr>StreamID = StreamShell, Type = FrameData, Payload = [104, 105]\<rparr>)"
  by (rule frame_roundtrip) (simp add: MaxPayloadSize_def)

text \<open>
  C23: the decoder accepts exactly the encodings. \<open>UnmarshalBinary\<close> returns no error
  precisely on the byte slices that begin with the encoding of a frame, and the frame it
  stores is then that one; in every other case it reports an error and never touches the
  payload of the receiver.
\<close>

theorem unmarshal_accepts:
  fixes g :: frame
  shows "(fst (UnmarshalBinary data g) = None \<longleftrightarrow> (\<exists>f bs rest. MarshalBinary f = Inr bs \<and> data = bs @ rest))
    \<and> (\<forall>f bs rest. MarshalBinary f = Inr bs \<longrightarrow> data = bs @ rest \<longrightarrow> snd (UnmarshalBinary data g) = f)
    \<and> (fst (UnmarshalBinary data g) \<noteq> None \<longrightarrow> Payload (snd (UnmarshalBinary data g)) = Payload g)"
proof (intro conjI iffI allI impI)
  assume "fst (UnmarshalBinary data g) = None"
  then obtain f where "UnmarshalBinary data g = (None, f)" by (cases "UnmarshalBinary data g") auto
  from UnmarshalBinary_None [OF this]
  show "\<exists>f bs rest. MarshalBinary f = Inr bs \<and> data = bs @ rest"
    by (auto simp: MarshalBinary_eq_Inr)
next
  assume "\<exists>f bs rest. MarshalBinary f = Inr bs \<and> data = bs @ rest"
  then show "fst (UnmarshalBinary data g) = None"
    by (auto simp: MarshalBinary_eq_Inr UnmarshalBinary_bytes)
next
  fix f bs rest assume "MarshalBinary f = Inr bs" and "data = bs @ rest"
  then show "snd (UnmarshalBinary data g) = f"
    by (auto simp: MarshalBinary_eq_Inr UnmarshalBinary_bytes)
next
  assume "fst (UnmarshalBinary data g) \<noteq> None"
  then show "Payload (snd (UnmarshalBinary data g)) = Payload g"
    by (auto simp: UnmarshalBinary_def Let_def split: if_splits)
qed

theorem unmarshal_accepts_witness:
  "snd (UnmarshalBinary (frame_bytes \<lparr>StreamID = 2, Type = 1, Payload = [7]\<rparr> @ [9])
      \<lparr>StreamID = 0, Type = 0, Payload = []\<rparr>) = \<lparr>StreamID = 2, Type = 1, Payload = [7]\<rparr>"
proof -
  have "MarshalBinary \<lparr>StreamID = 2, Type = 1, Payload = [7]\<rparr> = Inr (frame_bytes \<lparr>StreamID = 2, Type = 1, Payload = [7]\<rparr>)"
    by (simp add: MarshalBinary_fits frame_fits_def MaxPayloadSize_def)
  then show ?thesis
    using unmarshal_accepts [of "frame_bytes \<lparr>StreamID = 2, Type = 1, Payload = [7]\<rparr> @ [9]"] by blast
qed

text \<open>
  C13: frames survive any segmentation of the transport. If what a connection still has
  to deliver is, in whatever pieces it arrives, the encodings of a sequence of frames
  followed by some rest, then as many calls of \<open>ReadFrom\<close> return exactly those frames in
  order, and leave exactly the rest to be read.
\<close>

theorem frames_any_segmentation:
  assumes "\<forall>f\<in>set fs. length (Payload f) \<le> MaxPayloadSize"
    and "\<not> conn_closed c" and "concat (rx c) = concat (map frame_bytes fs) @ rest"
  shows "\<exists>c'. read_frames conn_read (length fs) c = Some (Inr fs, c')
    \<and> conn_stream c' = rest \<and> conn_end c' = conn_end c"
  using conn_rd.read_frames_stream [OF refl, of fs c rest] assms
  by (auto simp: conn_stream_def frame_fits_def)

theorem frames_any_segmentation_witness:
  "\<exists>c'. read_frames conn_read (length [\<lparr>StreamID = 2, Type = 1, Payload = [7]\<rparr>])
      \<lparr>rx = [[0], [2, 1, 0], [], [0, 0, 1, 7, 5]], rx_end = EOF, tx = [], tx_room = None, conn_closed = False\<rparr>
      = Some (Inr [\<lparr>StreamID = 2, Type = 1, Payload = [7]\<rparr>], c')
    \<and> conn_stream c' = [5]
    \<and> conn_end c' = conn_end \<lparr>rx = [[0], [2, 1, 0], [], [0, 0, 1, 7, 5]], rx_end = EOF, tx = [], tx_room = None, conn_closed = False\<rparr>"
  by (rule frames_any_segmentation)
    (simp_all add: MaxPayloadSize_def frame_bytes_def put_uint16_def put_uint32_def)

text \<open>
  C24: \<open>ReadFrom\<close> always returns, and its errors are exact. It reports the end of the
  connection cleanly (\<open>EOF\<close>) only between frames; an oversized length is refused before
  any of the payload is read; a payload cut short is an error and never a shorter frame.
\<close>

theorem ReadFrom_errors:
  "\<exists>res c'. ReadFrom conn_read c = Some (res, c') \<and>
    (let s = conn_stream c; e = conn_end c; n = frame_len s in
      if s = [] then res = Inl (ReadingHeader e) \<and> conn_stream c' = []
      else if length s < FrameHeaderSize
        then res = Inl (ReadingHeader (if e = EOF then UnexpectedEOF else e)) \<and> conn_stream c' = []
      else if MaxPayloadSize < n
        then res = Inl (PayloadTooLarge n MaxPayloadSize) \<and> conn_stream c' = drop FrameHeaderSize s
      else if length s = FrameHeaderSize \<and> 0 < n
        then res = Inl (ReadingPayload e) \<and> conn_stream c' = []
      else if length s < FrameHeaderSize + n
        then res = Inl (ReadingPayload (if e = EOF then UnexpectedEOF else e)) \<and> conn_stream c' = []
      else (\<exists>f. res = Inr f \<and> length (Payload f) = n \<and> s = frame_bytes f @ conn_stream c'))"
proof -
  define s where "s = conn_stream c"
  define e where "e = conn_end c"
  obtain c' where c': "ReadFrom conn_read c = Some (fst (parse_frame s e), c')"
    "conn_stream c' = snd (parse_frame s e)"
    using conn_rd.ReadFrom_stream [OF refl, of c] unfolding s_def e_def by blast
  have ok: "\<exists>f. fst (parse_frame s e) = Inr f \<and> length (Payload f) = frame_len s
      \<and> s = frame_bytes f @ snd (parse_frame s e)"
    if "FrameHeaderSize + frame_len s \<le> length s" "frame_len s \<le> MaxPayloadSize"
  proof -
    have "\<exists>f rest. parse_frame s e = (Inr f, rest) \<and> length (Payload f) = frame_len s"
      using that by (auto simp: parse_frame_cases)
    then obtain f rest where f: "parse_frame s e = (Inr f, rest)" "length (Payload f) = frame_len s"
      by blast
    with parse_frame_Inr [OF f(1)] show ?thesis by auto
  qed
  show ?thesis
    unfolding Let_def s_def [symmetric] e_def [symmetric]
    by (intro exI [of _ "fst (parse_frame s e)"] exI [of _ c'] conjI c'(1))
      (use ok in \<open>auto simp: c'(2) parse_frame_cases short_error_def not_less FrameHeaderSize_def\<close>)
qed

lemma StreamID_String_inj: "StreamID_String s = StreamID_String t \<Longrightarrow> s = t"
  by (auto simp: StreamID_String_def frame_consts dest: unsigned_word_eqI split: if_splits)

lemma FrameType_String_inj: "FrameType_String a = FrameType_String b \<Longrightarrow> a = b"
  by (auto simp: FrameType_String_def frame_consts dest: unsigned_word_eqI split: if_splits)

text \<open>
  The printed names identify what they name: no two stream ids and no two frame types
  print alike, known or not.
\<close>

lemma names_injective:
  "(StreamID_String s = StreamID_String t \<longleftrightarrow> s = t)
   \<and> (FrameType_String a = FrameType_String b \<longleftrightarrow> a = b)"
  by (blast dest: StreamID_String_inj FrameType_String_inj)

end
