(* ===== verification/Tunnel.thy ===== *)
theory Tunnel
  imports Frame Handshake
begin

text \<open>
  \<open>internal/tunnel\<close>: the transport interface, the transport over a relay connection, the
  tunnel that owns a transport, and the in-memory stream. What the proxies rely on of
  a transport is a locale, \<open>frame_transport\<close>; the relay transport satisfies it.
\<close>

section \<open>The relay transport (\<open>relay.go\<close>)\<close>

record relay_transport =
  rt_addr :: string
  rt_sessionID :: string
  rt_peerType :: byte
  rt_conn :: "conn option"   \<comment> \<open>\<open>None\<close>: nil\<close>

definition NewRelayTransportAsInitiator :: "string \<Rightarrow> string \<Rightarrow> relay_transport" where
  "NewRelayTransportAsInitiator addr sessionID =
     \<lparr>rt_addr = addr, rt_sessionID = sessionID, rt_peerType = PeerTypeInitiator, rt_conn = None\<rparr>"

definition NewRelayTransportAsResponder :: "string \<Rightarrow> string \<Rightarrow> relay_transport" where
  "NewRelayTransportAsResponder addr sessionID =
     \<lparr>rt_addr = addr, rt_sessionID = sessionID, rt_peerType = PeerTypeResponder, rt_conn = None\<rparr>"

datatype transport_error =
    RelayConnect connect_error
  | ReadFrameFromRelay frame_error
  | MarshalFrame frame_error
  | UnmarshalFrame frame_error
  | WriteFrameToRelay "frame_error + io_error"
  | CloseConn io_error

text \<open>
  \<open>None\<close> is a panic: the use of a connection that was never opened. \<open>dialled\<close> is what
  dialling the address gives.
\<close>

definition rt_Open :: "io_error + conn \<Rightarrow> relay_transport \<Rightarrow> (transport_error option \<times> relay_transport) option" where
  "rt_Open dialled rt =
     (case ConnectToRelay dialled (rt_sessionID rt) (rt_peerType rt) of
        None \<Rightarrow> None
      | Some (Inl e, _) \<Rightarrow> Some (Some (RelayConnect e), rt)
      | Some (Inr c, _) \<Rightarrow> Some (None, rt\<lparr>rt_conn := Some c\<rparr>))"

definition rt_Close :: "relay_transport \<Rightarrow> transport_error option \<times> relay_transport" where
  "rt_Close rt =
     (case rt_conn rt of
        None \<Rightarrow> (None, rt)
      | Some c \<Rightarrow> (if conn_closed c then Some (CloseConn ErrClosed) else None, rt\<lparr>rt_conn := Some (conn_close c)\<rparr>))"

definition ReadFrame :: "relay_transport \<Rightarrow> ((transport_error + byte list) \<times> relay_transport) option" where
  "ReadFrame rt =
     (case rt_conn rt of
        None \<Rightarrow> None
      | Some c \<Rightarrow>
          (case ReadFrom conn_read c of
             None \<Rightarrow> None
           | Some (Inl e, c') \<Rightarrow> Some (Inl (ReadFrameFromRelay e), rt\<lparr>rt_conn := Some c'\<rparr>)
           | Some (Inr f, c') \<Rightarrow>
               Some (case MarshalBinary f of Inl e \<Rightarrow> Inl (MarshalFrame e) | Inr data \<Rightarrow> Inr data,
                 rt\<lparr>rt_conn := Some c'\<rparr>)))"

definition empty_frame :: frame where
  "empty_frame = \<lparr>StreamID = 0, Type = 0, Payload = []\<rparr>"

definition WriteFrame :: "byte list \<Rightarrow> relay_transport \<Rightarrow> (transport_error option \<times> relay_transport) option" where
  "WriteFrame data rt =
     (case UnmarshalBinary data empty_frame of
        (Some e, _) \<Rightarrow> Some (Some (UnmarshalFrame e), rt)
      | (None, f) \<Rightarrow>
          (case rt_conn rt of
             None \<Rightarrow> None
           | Some c \<Rightarrow>
               (case WriteTo f c of
                  ((n, err), c') \<Rightarrow> Some (map_option WriteFrameToRelay err, rt\<lparr>rt_conn := Some c'\<rparr>))))"

text \<open>The addresses are the connection's, nil before it is opened.\<close>

definition LocalAddr :: "(conn \<Rightarrow> string) \<Rightarrow> relay_transport \<Rightarrow> string option" where
  "LocalAddr conn_addr rt = map_option conn_addr (rt_conn rt)"

definition RemoteAddr :: "(conn \<Rightarrow> string) \<Rightarrow> relay_transport \<Rightarrow> string option" where
  "RemoteAddr conn_addr rt = map_option conn_addr (rt_conn rt)"

section \<open>Tunnels and streams (\<open>tunnel.go\<close>)\<close>

record tunnel =
  tun_transport :: relay_transport
  tun_closed :: bool

definition NewTunnel :: "relay_transport \<Rightarrow> tunnel" where
  "NewTunnel rt = \<lparr>tun_transport = rt, tun_closed = False\<rparr>"

definition tun_Open :: "io_error + conn \<Rightarrow> tunnel \<Rightarrow> (transport_error option \<times> tunnel) option" where
  "tun_Open dialled t = map_option (\<lambda>(e, rt). (e, t\<lparr>tun_transport := rt\<rparr>)) (rt_Open dialled (tun_transport t))"

text \<open>Closing the channel a second time is a panic.\<close>

definition tun_Close :: "tunnel \<Rightarrow> (transport_error option \<times> tunnel) option" where
  "tun_Close t =
     (if tun_closed t then None
      else case rt_Close (tun_transport t) of (e, rt) \<Rightarrow> Some (e, \<lparr>tun_transport = rt, tun_closed = True\<rparr>))"

definition IsClosed :: "tunnel \<Rightarrow> bool" where
  "IsClosed t = tun_closed t"

text \<open>
  The stream: two channels of 64 messages and a closing flag. A \<open>select\<close> with several
  ready cases takes any of them: \<open>prefer_data\<close> says which; \<open>Blocks\<close> means that none is ready.
\<close>

record stream =
  readCh :: "byte list list"
  read_closed :: bool
  writeCh :: "byte list list"
  stream_closed :: bool

definition chan_cap :: nat where "chan_cap = 64"

definition NewReadWriteCloser :: stream where
  "NewReadWriteCloser = \<lparr>readCh = [], read_closed = False, writeCh = [], stream_closed = False\<rparr>"

datatype 'a waiting = Blocks | Ready 'a

definition stream_Read :: "bool \<Rightarrow> nat \<Rightarrow> stream \<Rightarrow> ((io_error + byte list) \<times> stream) waiting" where
  "stream_Read prefer_data k s =
     (let data_ready = (readCh s \<noteq> [] \<or> read_closed s)
      in if data_ready \<and> (prefer_data \<or> \<not> stream_closed s)
         then (case readCh s of
                 m # ms \<Rightarrow> Ready (Inr (take k m), s\<lparr>readCh := ms\<rparr>)
               | [] \<Rightarrow> Ready (Inl EOF, s))
         else if stream_closed s then Ready (Inl EOF, s)
         else Blocks)"

definition stream_Write :: "bool \<Rightarrow> byte list \<Rightarrow> stream \<Rightarrow> ((io_error + nat) \<times> stream) waiting" where
  "stream_Write prefer_data p s =
     (let room = (length (writeCh s) < chan_cap)
      in if room \<and> (prefer_data \<or> \<not> stream_closed s) then Ready (Inr (length p), s\<lparr>writeCh := writeCh s @ [p]\<rparr>)
         else if stream_closed s then Ready (Inl (ConnErr ''io: read/write on closed pipe''), s)
         else Blocks)"

definition stream_Close :: "stream \<Rightarrow> stream option" where
  "stream_Close s = (if stream_closed s then None else Some (s\<lparr>stream_closed := True\<rparr>))"

section \<open>What a transport promises\<close>

text \<open>
  A transport that is \<open>ready\<close> takes every encoded frame and adds it to the bytes \<open>sent\<close>; it
  hands out the frames at the front of its \<open>incoming\<close> bytes one by one, and an error
  once there are none. Reading and writing do not disturb each other.
\<close>

fun write_frames :: "(byte list \<Rightarrow> 't \<Rightarrow> ('e option \<times> 't) option) \<Rightarrow> byte list list \<Rightarrow> 't \<Rightarrow> 't option" where
  "write_frames wr [] t = Some t"
| "write_frames wr (d # ds) t = (case wr d t of Some (None, t') \<Rightarrow> write_frames wr ds t' | _ \<Rightarrow> None)"

fun receive_frames :: "('t \<Rightarrow> (('e + byte list) \<times> 't) option) \<Rightarrow> nat \<Rightarrow> 't \<Rightarrow> (byte list list \<times> 't) option" where
  "receive_frames rd 0 t = Some ([], t)"
| "receive_frames rd (Suc n) t =
     (case rd t of Some (Inr d, t') \<Rightarrow> map_option (\<lambda>(ds, t). (d # ds, t)) (receive_frames rd n t') | _ \<Rightarrow> None)"

locale frame_transport =
  fixes rd :: "'t \<Rightarrow> (('e + byte list) \<times> 't) option" and wr :: "byte list \<Rightarrow> 't \<Rightarrow> ('e option \<times> 't) option"
    and ready :: "'t \<Rightarrow> bool" and sent :: "'t \<Rightarrow> byte list" and incoming :: "'t \<Rightarrow> byte list"
  assumes write_frame: "ready t \<Longrightarrow> frame_fits f \<Longrightarrow>
      \<exists>t'. wr (frame_bytes f) t = Some (None, t') \<and> ready t' \<and> sent t' = sent t @ frame_bytes f \<and> incoming t' = incoming t"
    and read_frame: "ready t \<Longrightarrow> frame_fits f \<Longrightarrow> incoming t = frame_bytes f @ rest \<Longrightarrow>
      \<exists>t'. rd t = Some (Inr (frame_bytes f), t') \<and> ready t' \<and> sent t' = sent t \<and> incoming t' = rest"
    and read_end: "ready t \<Longrightarrow> incoming t = [] \<Longrightarrow>
      \<exists>e t'. rd t = Some (Inl e, t') \<and> ready t' \<and> sent t' = sent t \<and> incoming t' = []"
begin

lemma write_frames_sends:
  assumes "ready t" "\<forall>f\<in>set fs. frame_fits f"
  shows "\<exists>t'. write_frames wr (map frame_bytes fs) t = Some t' \<and> ready t' \<and> sent t' = sent t @ concat (map frame_bytes fs) \<and> incoming t' = incoming t"
  using assms
proof (induction fs arbitrary: t)
  case (Cons f fs)
  then obtain t1 where t1: "wr (frame_bytes f) t = Some (None, t1)" "ready t1" "sent t1 = sent t @ frame_bytes f"
    "incoming t1 = incoming t" using write_frame [of t f] by auto
  with Cons.IH [OF t1(2)] Cons.prems(2) show ?case by auto
qed simp

lemma receive_frames_receives:
  assumes "ready t" "\<forall>f\<in>set fs. frame_fits f" "incoming t = concat (map frame_bytes fs) @ rest"
  shows "\<exists>t'. receive_frames rd (length fs) t = Some (map frame_bytes fs, t') \<and> ready t' \<and> sent t' = sent t \<and> incoming t' = rest"
  using assms
proof (induction fs arbitrary: t)
  case (Cons f fs)
  then obtain t1 where t1: "rd t = Some (Inr (frame_bytes f), t1)" "ready t1" "sent t1 = sent t"
    "incoming t1 = concat (map frame_bytes fs) @ rest" using read_frame [of t f] by auto
  with Cons.IH [OF t1(2)] Cons.prems(2) show ?case by auto
qed simp

end

text \<open>The relay transport, open and with a peer that takes everything.\<close>

definition rt_ready :: "relay_transport \<Rightarrow> bool" where
  "rt_ready rt \<longleftrightarrow> (case rt_conn rt of None \<Rightarrow> False | Some c \<Rightarrow> \<not> conn_closed c \<and> tx_room c = None)"

definition rt_sent :: "relay_transport \<Rightarrow> byte list" where
  "rt_sent rt = (case rt_conn rt of None \<Rightarrow> [] | Some c \<Rightarrow> tx c)"

definition rt_incoming :: "relay_transport \<Rightarrow> byte list" where
  "rt_incoming rt = (case rt_conn rt of None \<Rightarrow> [] | Some c \<Rightarrow> conn_stream c)"

lemma empty_frame_update: "empty_frame\<lparr>StreamID := StreamID f, Type := Type f, Payload := Payload f\<rparr> = f"
  by (simp add: empty_frame_def)

lemma WriteFrame_bytes:
  assumes "rt_conn rt = Some c" "\<not> conn_closed c" "tx_room c = None" "frame_fits f"
  shows "WriteFrame (frame_bytes f @ trailing) rt = Some (None, rt\<lparr>rt_conn := Some (c\<lparr>tx := tx c @ frame_bytes f\<rparr>)\<rparr>)"
  using assms
  by (simp add: WriteFrame_def UnmarshalBinary_bytes empty_frame_update WriteTo_def MarshalBinary_fits conn_write_ok)

lemma ReadFrame_conn:
  assumes "rt_conn rt = Some c"
  obtains c' where "ReadFrame rt =
      Some (case fst (parse_frame (conn_stream c) (conn_end c)) of
              Inl e \<Rightarrow> Inl (ReadFrameFromRelay e) | Inr f \<Rightarrow> Inr (frame_bytes f), rt\<lparr>rt_conn := Some c'\<rparr>)"
    and "conn_stream c' = snd (parse_frame (conn_stream c) (conn_end c))" and "outgoing c' = outgoing c"
proof -
  obtain c' where c': "ReadFrom conn_read c = Some (fst (parse_frame (conn_stream c) (conn_end c)), c')"
    "conn_stream c' = snd (parse_frame (conn_stream c) (conn_end c))" "outgoing c' = outgoing c"
    using conn_rd.ReadFrom_stream [OF refl, of c] by blast
  have "MarshalBinary f = Inr (frame_bytes f)" if "fst (parse_frame (conn_stream c) (conn_end c)) = Inr f" for f
    using that parse_frame_Inr [of "conn_stream c" "conn_end c" f] MarshalBinary_fits by (metis prod.collapse)
  with assms c' show thesis
    by (intro that [of c']) (auto simp: ReadFrame_def split: sum.split)
qed

interpretation relay_tr: frame_transport ReadFrame WriteFrame rt_ready rt_sent rt_incoming
proof unfold_locales
  fix rt f assume r: "rt_ready rt" "frame_fits f"
  then obtain c where "rt_conn rt = Some c" "\<not> conn_closed c" "tx_room c = None" by (auto simp: rt_ready_def split: option.splits)
  then show "\<exists>t'. WriteFrame (frame_bytes f) rt = Some (None, t') \<and> rt_ready t' \<and> rt_sent t' = rt_sent rt @ frame_bytes f
      \<and> rt_incoming t' = rt_incoming rt"
    using WriteFrame_bytes [of rt c f "[]"] r(2) by (simp add: rt_ready_def rt_sent_def rt_incoming_def conn_stream_def)
next
  fix rt f rest assume r: "rt_ready rt" "frame_fits f" "rt_incoming rt = frame_bytes f @ rest"
  then obtain c where c: "rt_conn rt = Some c" "\<not> conn_closed c" "tx_room c = None" by (auto simp: rt_ready_def split: option.splits)
  then have "conn_stream c = frame_bytes f @ rest" using r(3) by (simp add: rt_incoming_def)
  then obtain c' where "ReadFrame rt = Some (Inr (frame_bytes f), rt\<lparr>rt_conn := Some c'\<rparr>)" "conn_stream c' = rest" "outgoing c' = outgoing c"
    using ReadFrame_conn [OF c(1)] r(2) by (auto simp: parse_frame_bytes)
  then show "\<exists>t'. ReadFrame rt = Some (Inr (frame_bytes f), t') \<and> rt_ready t' \<and> rt_sent t' = rt_sent rt \<and> rt_incoming t' = rest"
    using c by (simp add: rt_ready_def rt_sent_def rt_incoming_def outgoing_eq_iff)
next
  fix rt assume r: "rt_ready rt" "rt_incoming rt = []"
  then obtain c where c: "rt_conn rt = Some c" "\<not> conn_closed c" "tx_room c = None" by (auto simp: rt_ready_def split: option.splits)
  then have "conn_stream c = []" using r(2) by (simp add: rt_incoming_def)
  then have "parse_frame (conn_stream c) (conn_end c) = (Inl (ReadingHeader (conn_end c)), [])"
    by (simp add: parse_frame_cases FrameHeaderSize_def short_error_def)
  then obtain e c' where "ReadFrame rt = Some (Inl e, rt\<lparr>rt_conn := Some c'\<rparr>)" "conn_stream c' = []" "outgoing c' = outgoing c"
    using ReadFrame_conn [OF c(1)] by simp blast
  then show "\<exists>e t'. ReadFrame rt = Some (Inl e, t') \<and> rt_ready t' \<and> rt_sent t' = rt_sent rt \<and> rt_incoming t' = []"
    using c by (simp add: rt_ready_def rt_sent_def rt_incoming_def outgoing_eq_iff)
qed

section \<open>Properties\<close>

text \<open>
  C15: frames cross the relay transport unchanged. Frames of at most 64 KiB written one after the
  other to an open transport are put on the wire as their encodings, in order; and a transport
  to which those bytes come, in whatever pieces and whatever follows, returns exactly the
  encodings that were written, one per call, and leaves the rest. Bytes behind the frame in
  the slice given to \<open>WriteFrame\<close> are dropped without an error.
\<close>

theorem frames_over_relay:
  assumes "rt_ready a" "rt_ready b" "\<forall>f\<in>set fs. length (Payload f) \<le> MaxPayloadSize"
    and "rt_incoming b = concat (map frame_bytes fs) @ rest"
  shows "\<exists>a' b'. write_frames WriteFrame (map frame_bytes fs) a = Some a'
    \<and> rt_sent a' = rt_sent a @ concat (map frame_bytes fs) \<and> rt_incoming a' = rt_incoming a
    \<and> receive_frames ReadFrame (length fs) b = Some (map frame_bytes fs, b')
    \<and> rt_incoming b' = rest \<and> rt_sent b' = rt_sent b
    \<and> (\<forall>f\<in>set fs. UnmarshalBinary (frame_bytes f) empty_frame = (None, f)
         \<and> WriteFrame (frame_bytes f @ trailing) a = WriteFrame (frame_bytes f) a)"
proof -
  have fit: "\<forall>f\<in>set fs. frame_fits f" using assms(3) by (simp add: frame_fits_def)
  obtain c where c: "rt_conn a = Some c" "\<not> conn_closed c" "tx_room c = None"
    using assms(1) by (auto simp: rt_ready_def split: option.splits)
  have "UnmarshalBinary (frame_bytes f) empty_frame = (None, f) \<and> WriteFrame (frame_bytes f @ trailing) a = WriteFrame (frame_bytes f) a"
    if "f \<in> set fs" for f
    using fit that WriteFrame_bytes [OF c, of f] WriteFrame_bytes [OF c, of f "[]"] UnmarshalBinary_bytes [of f "[]"]
    by (simp add: empty_frame_update)
  then show ?thesis
    using relay_tr.write_frames_sends [OF assms(1) fit] relay_tr.receive_frames_receives [OF assms(2) fit assms(4)] by blast
qed

definition demo_conn :: "byte list list \<Rightarrow> conn" where
  "demo_conn ps = \<lparr>rx = ps, rx_end = EOF, tx = [], tx_room = None, conn_closed = False\<rparr>"

theorem frames_over_relay_witness:
  "\<exists>b'. receive_frames ReadFrame 1 ((NewRelayTransportAsInitiator [] ''s'')\<lparr>rt_conn := Some (demo_conn [[0, 2, 1], [0, 0, 0, 1, 7, 5]])\<rparr>)
     = Some ([[0, 2, 1, 0, 0, 0, 1, 7]], b') \<and> rt_incoming b' = [5]"
proof -
  let ?f = "\<lparr>StreamID = 2, Type = 1, Payload = [7]\<rparr>"
  have b: "frame_bytes ?f = [0, 2, 1, 0, 0, 0, 1, 7]" by (simp add: frame_bytes_def put_uint16_def put_uint32_def)
  show ?thesis
    using frames_over_relay [of "(NewRelayTransportAsResponder [] ''s'')\<lparr>rt_conn := Some (demo_conn [])\<rparr>"
        "(NewRelayTransportAsInitiator [] ''s'')\<lparr>rt_conn := Some (demo_conn [[0, 2, 1], [0, 0, 0, 1, 7, 5]])\<rparr>" "[?f]" "[5]"]
    by (simp add: b rt_ready_def rt_incoming_def demo_conn_def conn_stream_def MaxPayloadSize_def) blast
qed

text \<open>
  A stream loses what a short buffer does not take. \<open>Read\<close> takes a whole message off its channel
  and copies as much as fits; the rest of the message is gone, so what a reader
  gets is not what was sent, unless its buffer holds every message whole, in which case it gets the messages
  one by one, in order.
\<close>

lemma short_reads_lose_bytes:
  assumes "readCh s = m # ms" "\<not> stream_closed s"
  shows "\<exists>s'. stream_Read prefer k s = Ready (Inr (take k m), s')
    \<and> readCh s' = ms \<and> writeCh s' = writeCh s
    \<and> (take k m @ concat (readCh s') = concat (readCh s) \<longleftrightarrow> length m \<le> k)"
proof -
  have "take k m @ concat ms = m @ concat ms \<longleftrightarrow> length m \<le> k" by (auto simp: take_all_iff)
  then show ?thesis using assms by (simp add: stream_Read_def)
qed

lemma short_reads_lose_bytes_witness:
  "\<exists>s'. stream_Read False 2 (NewReadWriteCloser\<lparr>readCh := [[1, 2, 3], [4]]\<rparr>) = Ready (Inr [1, 2], s')
     \<and> concat (readCh s') = [4]"
  using short_reads_lose_bytes [of "NewReadWriteCloser\<lparr>readCh := [[1, 2, 3], [4]]\<rparr>" "[1, 2, 3]" "[[4]]" False 2]
  by (auto simp: NewReadWriteCloser_def)

text \<open>Closing twice panics, for tunnels and streams alike; a transport may be closed again.\<close>

lemma double_close:
  "tun_Close t = Some (e, t') \<Longrightarrow> tun_Close t' = None"
  "stream_Close s = Some s' \<Longrightarrow> stream_Close s' = None"
  "rt_Close rt = (e, rt') \<Longrightarrow> \<exists>e'. rt_Close rt' = (e', rt')"
  by (auto simp: tun_Close_def stream_Close_def rt_Close_def conn_simps split: if_splits prod.splits option.splits)

text \<open>Before \<open>Open\<close> both transfers panic, whatever well-formed frame is written.\<close>

lemma unopened_transport_panics:
  "rt_conn rt = None \<Longrightarrow> ReadFrame rt = None"
  "rt_conn rt = None \<Longrightarrow> frame_fits f \<Longrightarrow> WriteFrame (frame_bytes f) rt = None"
  using UnmarshalBinary_bytes [of f "[]" empty_frame] by (simp_all add: ReadFrame_def WriteFrame_def)

end
