(* ===== verification/Pump.thy ===== *)
theory Pump
  imports GoIO
begin

text \<open>
  Two goroutines that each repeat a step until it returns, a channel for their results, and
  a \<open>WaitGroup\<close> that waits for both: the shape of \<open>ProxyData\<close>, \<open>ProxyDataFrames\<close> and
  \<open>ShellSession.Pipe\<close>. Their steps interleave freely. The locale \<open>two_way\<close> states when such a
  pair works: each goroutine has its own finite amount of work, which the other leaves alone.
\<close>

datatype ('e, 's) turn =
    Continue 's
  | Return "'e option" 's   \<comment> \<open>\<open>None\<close>: nil\<close>
  | Crash

record ('e, 's) pump =
  pst :: 's
  run1 :: bool
  run2 :: bool
  errs :: "'e option list"   \<comment> \<open>the channel, in the order of arrival\<close>
  crashed :: bool

definition start_pump :: "'s \<Rightarrow> ('e, 's) pump" where
  "start_pump s = \<lparr>pst = s, run1 = True, run2 = True, errs = [], crashed = False\<rparr>"

definition turn1 :: "('s \<Rightarrow> ('e, 's) turn) \<Rightarrow> ('e, 's) pump \<Rightarrow> ('e, 's) pump" where
  "turn1 f p =
     (case f (pst p) of
        Continue s \<Rightarrow> p\<lparr>pst := s\<rparr>
      | Return e s \<Rightarrow> p\<lparr>pst := s, run1 := False, errs := errs p @ [e]\<rparr>
      | Crash \<Rightarrow> p\<lparr>crashed := True\<rparr>)"

definition turn2 :: "('s \<Rightarrow> ('e, 's) turn) \<Rightarrow> ('e, 's) pump \<Rightarrow> ('e, 's) pump" where
  "turn2 g p =
     (case g (pst p) of
        Continue s \<Rightarrow> p\<lparr>pst := s\<rparr>
      | Return e s \<Rightarrow> p\<lparr>pst := s, run2 := False, errs := errs p @ [e]\<rparr>
      | Crash \<Rightarrow> p\<lparr>crashed := True\<rparr>)"

inductive pump_step :: "('s \<Rightarrow> ('e, 's) turn) \<Rightarrow> ('s \<Rightarrow> ('e, 's) turn) \<Rightarrow> ('e, 's) pump \<Rightarrow> ('e, 's) pump \<Rightarrow> bool"
  for f g where
  First: "run1 p \<Longrightarrow> \<not> crashed p \<Longrightarrow> pump_step f g p (turn1 f p)"
| Second: "run2 p \<Longrightarrow> \<not> crashed p \<Longrightarrow> pump_step f g p (turn2 g p)"

definition finished :: "('e, 's) pump \<Rightarrow> bool" where
  "finished p \<longleftrightarrow> \<not> run1 p \<and> \<not> run2 p"

text \<open>The loop over the channel: the first error that is not nil.\<close>

fun first_error :: "'e option list \<Rightarrow> 'e option" where
  "first_error [] = None"
| "first_error (None # es) = first_error es"
| "first_error (Some e # es) = Some e"

lemma first_error_None: "first_error es = None \<longleftrightarrow> (\<forall>e\<in>set es. e = None)"
  by (induction es rule: first_error.induct) auto

text \<open>What holds in every state of the pair, and how much is left to do.\<close>

definition pump_inv :: "('s \<Rightarrow> bool) \<Rightarrow> ('s \<Rightarrow> nat) \<Rightarrow> ('s \<Rightarrow> nat) \<Rightarrow> ('e option \<Rightarrow> bool) \<Rightarrow> ('e, 's) pump \<Rightarrow> bool" where
  "pump_inv good m1 m2 ok p \<longleftrightarrow> good (pst p) \<and> \<not> crashed p \<and> (\<not> run1 p \<longrightarrow> m1 (pst p) = 0) \<and> (\<not> run2 p \<longrightarrow> m2 (pst p) = 0)
     \<and> length (errs p) = (if run1 p then 0 else 1) + (if run2 p then 0 else 1) \<and> (\<forall>e\<in>set (errs p). ok e)"

definition pump_work :: "('s \<Rightarrow> nat) \<Rightarrow> ('s \<Rightarrow> nat) \<Rightarrow> ('e, 's) pump \<Rightarrow> nat" where
  "pump_work m1 m2 p = m1 (pst p) + m2 (pst p) + (if run1 p then 1 else 0) + (if run2 p then 1 else 0)"

locale two_way =
  fixes f g :: "'s \<Rightarrow> ('e, 's) turn" and inv :: "'s \<Rightarrow> bool" and m1 m2 :: "'s \<Rightarrow> nat" and ok :: "'e option \<Rightarrow> bool"
  assumes f_turn: "inv s \<Longrightarrow> (\<exists>s'. f s = Continue s' \<and> inv s' \<and> m1 s' < m1 s \<and> m2 s' = m2 s)
      \<or> (\<exists>e s'. f s = Return e s' \<and> inv s' \<and> m1 s = 0 \<and> m1 s' = 0 \<and> m2 s' = m2 s \<and> ok e)"
    and g_turn: "inv s \<Longrightarrow> (\<exists>s'. g s = Continue s' \<and> inv s' \<and> m2 s' < m2 s \<and> m1 s' = m1 s)
      \<or> (\<exists>e s'. g s = Return e s' \<and> inv s' \<and> m2 s = 0 \<and> m2 s' = 0 \<and> m1 s' = m1 s \<and> ok e)"
begin

lemma step_inv_work:
  assumes p: "pump_inv inv m1 m2 ok p" and q: "pump_step f g p q"
  shows "pump_inv inv m1 m2 ok q \<and> pump_work m1 m2 q < pump_work m1 m2 p"
  using q
proof (cases rule: pump_step.cases)
  case First
  with f_turn [of "pst p"] p show ?thesis
    by (auto simp: pump_inv_def pump_work_def turn1_def split: if_splits)
next
  case Second
  with g_turn [of "pst p"] p show ?thesis
    by (auto simp: pump_inv_def pump_work_def turn2_def split: if_splits)
qed

lemma start_inv: "inv s \<Longrightarrow> pump_inv inv m1 m2 ok (start_pump s)"
  by (simp add: pump_inv_def start_pump_def)

text \<open>No run is longer than the work there is, and every run can be brought to its end.\<close>

lemma run_bounded:
  "(pump_step f g ^^ n) p q \<Longrightarrow> pump_inv inv m1 m2 ok p \<Longrightarrow> pump_inv inv m1 m2 ok q \<and> n + pump_work m1 m2 q \<le> pump_work m1 m2 p"
proof (induction n arbitrary: q)
  case (Suc n)
  then obtain r where r: "(pump_step f g ^^ n) p r" "pump_step f g r q" by auto
  with Suc.IH [OF r(1) Suc.prems(2)] step_inv_work [of r q] show ?case by linarith
qed simp

lemma run_completes: "pump_inv inv m1 m2 ok p \<Longrightarrow> \<exists>q. (pump_step f g)\<^sup>*\<^sup>* p q \<and> finished q"
proof (induction "pump_work m1 m2 p" arbitrary: p rule: less_induct)
  case less
  show ?case
  proof (cases "finished p")
    case False
    then obtain q where q: "pump_step f g p q"
      using less.prems pump_step.intros by (metis finished_def pump_inv_def)
    from less.hyps [of q] step_inv_work [OF less.prems q] q show ?thesis
      by (meson converse_rtranclp_into_rtranclp)
  qed blast
qed

end

text \<open>The pair as a transition system with its invariant.\<close>

sublocale two_way \<subseteq> transition_system "\<lambda>p. \<exists>s. inv s \<and> p = start_pump s" "pump_step f g" "pump_inv inv m1 m2 ok"
  by unfold_locales (auto intro: start_inv dest: step_inv_work)

context two_way
begin

lemma start_run_inv:
  assumes "inv s" "(pump_step f g)\<^sup>*\<^sup>* (start_pump s) q"
  shows "pump_inv inv m1 m2 ok q"
proof -
  have "reach (\<lambda>p. \<exists>s. inv s \<and> p = start_pump s) (pump_step f g) (start_pump s)"
    by (rule reach_init) (use assms(1) in blast)
  then show ?thesis using assms(2) by (rule run_inv)
qed

text \<open>All of it at once, for a pair that starts in a good state.\<close>

lemma pump_complete:
  assumes "inv s"
  shows "\<forall>n q. (pump_step f g ^^ n) (start_pump s) q \<longrightarrow> n \<le> m1 s + m2 s + 2"
    and "\<exists>q. (pump_step f g)\<^sup>*\<^sup>* (start_pump s) q \<and> finished q"
    and "\<forall>q. (pump_step f g)\<^sup>*\<^sup>* (start_pump s) q \<longrightarrow> \<not> crashed q"
    and "\<forall>q. (pump_step f g)\<^sup>*\<^sup>* (start_pump s) q \<and> finished q \<longrightarrow>
      inv (pst q) \<and> m1 (pst q) = 0 \<and> m2 (pst q) = 0 \<and> length (errs q) = 2 \<and> (\<forall>e\<in>set (errs q). ok e)"
proof -
  show "\<forall>n q. (pump_step f g ^^ n) (start_pump s) q \<longrightarrow> n \<le> m1 s + m2 s + 2"
    using run_bounded [OF _ start_inv [OF assms]] by (fastforce simp: pump_work_def start_pump_def)
  show "\<exists>q. (pump_step f g)\<^sup>*\<^sup>* (start_pump s) q \<and> finished q"
    by (rule run_completes [OF start_inv [OF assms]])
  show "\<forall>q. (pump_step f g)\<^sup>*\<^sup>* (start_pump s) q \<longrightarrow> \<not> crashed q"
    "\<forall>q. (pump_step f g)\<^sup>*\<^sup>* (start_pump s) q \<and> finished q \<longrightarrow>
      inv (pst q) \<and> m1 (pst q) = 0 \<and> m2 (pst q) = 0 \<and> length (errs q) = 2 \<and> (\<forall>e\<in>set (errs q). ok e)"
    using start_run_inv [OF assms] by (auto simp: pump_inv_def finished_def)
qed

end

section \<open>Copying in both directions\<close>

text \<open>
  One turn of \<open>io.Copy(dst, src)\<close> with its 32 KiB buffer; the end of the source is no error.
\<close>

definition copy_buf :: nat where "copy_buf = 32 * 1024"

definition copy_error :: "io_error \<Rightarrow> io_error option" where
  "copy_error e = (if e = EOF then None else Some e)"

definition copy_turn :: "conn \<times> conn \<Rightarrow> (io_error, conn \<times> conn) turn" where
  "copy_turn = (\<lambda>(src, dst).
     case conn_read copy_buf src of
       (Inl e, src') \<Rightarrow> Return (copy_error e) (src', dst)
     | (Inr bs, src') \<Rightarrow>
         (case conn_write bs dst of
            (Some e, dst') \<Rightarrow> Return (Some e) (src', dst')
          | (None, dst') \<Rightarrow> Continue (src', dst')))"

fun swap_turn :: "('e, 'a \<times> 'b) turn \<Rightarrow> ('e, 'b \<times> 'a) turn" where
  "swap_turn (Continue (a, b)) = Continue (b, a)"
| "swap_turn (Return e (a, b)) = Return e (b, a)"
| "swap_turn Crash = Crash"

text \<open>The copy in the other direction.\<close>

definition copy_turn_back :: "conn \<times> conn \<Rightarrow> (io_error, conn \<times> conn) turn" where
  "copy_turn_back = (\<lambda>(a, b). swap_turn (copy_turn (b, a)))"

definition copying :: "conn \<times> conn \<Rightarrow> conn \<times> conn \<Rightarrow> bool" where
  "copying = (\<lambda>(a0, b0) (a, b). \<not> conn_closed a \<and> \<not> conn_closed b \<and> tx_room a = None \<and> tx_room b = None
     \<and> conn_end a = conn_end a0 \<and> conn_end b = conn_end b0
     \<and> (\<exists>x. conn_stream a0 = x @ conn_stream a \<and> tx b = tx b0 @ x)
     \<and> (\<exists>y. conn_stream b0 = y @ conn_stream b \<and> tx a = tx a0 @ y))"

lemma copy_turn_cases:
  assumes "\<not> conn_closed a" "\<not> conn_closed b" "tx_room b = None"
  shows "(\<exists>x a'. copy_turn (a, b) = Continue (a', b\<lparr>tx := tx b @ x\<rparr>) \<and> x \<noteq> [] \<and> conn_stream a = x @ conn_stream a'
        \<and> conn_end a' = conn_end a \<and> outgoing a' = outgoing a)
    \<or> (\<exists>a'. copy_turn (a, b) = Return (copy_error (conn_end a)) (a', b)
        \<and> conn_stream a = [] \<and> conn_stream a' = [] \<and> conn_end a' = conn_end a \<and> outgoing a' = outgoing a)"
proof (cases "conn_stream a = []")
  case True
  from conn_rd.rd_none [OF refl _ this, of copy_buf] show ?thesis
    using True by (auto simp: copy_turn_def copy_buf_def)
next
  case False
  from conn_rd.rd_some [OF refl _ this, of copy_buf] obtain bs a' where
    "conn_read copy_buf a = (Inr bs, a')" "bs \<noteq> []" "conn_stream a = bs @ conn_stream a'"
    "conn_end a' = conn_end a" "outgoing a' = outgoing a" by (auto simp: copy_buf_def)
  then show ?thesis using conn_write_ok [OF assms(2,3), of bs] by (auto simp: copy_turn_def)
qed

lemma copying_turn:
  assumes "copying (a0, b0) (a, b)"
  shows "(\<exists>s'. copy_turn (a, b) = Continue s' \<and> copying (a0, b0) s' \<and> length (conn_stream (fst s')) < length (conn_stream a)
        \<and> conn_stream (snd s') = conn_stream b)
    \<or> (\<exists>s'. copy_turn (a, b) = Return (copy_error (conn_end a0)) s' \<and> copying (a0, b0) s'
        \<and> conn_stream a = [] \<and> conn_stream (fst s') = [] \<and> conn_stream (snd s') = conn_stream b)"
proof -
  have c: "\<not> conn_closed a" "\<not> conn_closed b" "tx_room b = None" "conn_end a = conn_end a0" using assms by (auto simp: copying_def)
  show ?thesis
    using copy_turn_cases [OF c(1-3)]
  proof (elim disjE exE conjE)
    fix x a' assume "copy_turn (a, b) = Continue (a', b\<lparr>tx := tx b @ x\<rparr>)" "x \<noteq> []" "conn_stream a = x @ conn_stream a'"
      "conn_end a' = conn_end a" "outgoing a' = outgoing a"
    then show ?thesis using assms by (auto simp: copying_def outgoing_eq_iff conn_stream_def conn_end_def)
  next
    fix a' assume "copy_turn (a, b) = Return (copy_error (conn_end a)) (a', b)"
      "conn_stream a = []" "conn_stream a' = []" "conn_end a' = conn_end a" "outgoing a' = outgoing a"
    then show ?thesis using assms c by (auto simp: copying_def outgoing_eq_iff)
  qed
qed

lemma copying_swap: "copying (a0, b0) (a, b) \<longleftrightarrow> copying (b0, a0) (b, a)"
  by (auto simp: copying_def)

lemma copying_turn_back:
  assumes "copying (a0, b0) (a, b)"
  shows "(\<exists>s'. copy_turn_back (a, b) = Continue s' \<and> copying (a0, b0) s' \<and> length (conn_stream (snd s')) < length (conn_stream b)
        \<and> conn_stream (fst s') = conn_stream a)
    \<or> (\<exists>s'. copy_turn_back (a, b) = Return (copy_error (conn_end b0)) s' \<and> copying (a0, b0) s'
        \<and> conn_stream b = [] \<and> conn_stream (snd s') = [] \<and> conn_stream (fst s') = conn_stream a)"
proof -
  have turned: "copying (a0, b0) (snd s', fst s')" if "copying (b0, a0) s'" for s'
    using that copying_swap [of b0 a0 "fst s'" "snd s'"] by simp
  have sw: "swap_turn (Continue s') = Continue (snd s', fst s')" "swap_turn (Return e s') = Return e (snd s', fst s')"
    for e :: "io_error option" and s' :: "conn \<times> conn" by (cases s'; simp)+
  have "copying (b0, a0) (b, a)" using assms copying_swap [of a0 b0 a b] by simp
  from copying_turn [OF this] show ?thesis
    by (elim disjE exE conjE) (auto simp: copy_turn_back_def sw intro: turned)
qed

interpretation copy_both: two_way copy_turn copy_turn_back "copying s0" "\<lambda>s. length (conn_stream (fst s))"
  "\<lambda>s. length (conn_stream (snd s))"
  "\<lambda>e. e \<in> {copy_error (conn_end (fst s0)), copy_error (conn_end (snd s0))}"
  for s0
proof unfold_locales
  obtain a0 b0 where s0: "s0 = (a0, b0)" by fastforce
  fix s assume s: "copying s0 s"
  obtain a b where ab: "s = (a, b)" by fastforce
  show "(\<exists>s'. copy_turn s = Continue s' \<and> copying s0 s' \<and> length (conn_stream (fst s')) < length (conn_stream (fst s))
        \<and> length (conn_stream (snd s')) = length (conn_stream (snd s)))
    \<or> (\<exists>e s'. copy_turn s = Return e s' \<and> copying s0 s' \<and> length (conn_stream (fst s)) = 0 \<and> length (conn_stream (fst s')) = 0
        \<and> length (conn_stream (snd s')) = length (conn_stream (snd s))
        \<and> e \<in> {copy_error (conn_end (fst s0)), copy_error (conn_end (snd s0))})"
    using copying_turn [of a0 b0 a b] s by (auto simp: s0 ab)
  show "(\<exists>s'. copy_turn_back s = Continue s' \<and> copying s0 s' \<and> length (conn_stream (snd s')) < length (conn_stream (snd s))
        \<and> length (conn_stream (fst s')) = length (conn_stream (fst s)))
    \<or> (\<exists>e s'. copy_turn_back s = Return e s' \<and> copying s0 s' \<and> length (conn_stream (snd s)) = 0 \<and> length (conn_stream (snd s')) = 0
        \<and> length (conn_stream (fst s')) = length (conn_stream (fst s))
        \<and> e \<in> {copy_error (conn_end (fst s0)), copy_error (conn_end (snd s0))})"
    using copying_turn_back [of a0 b0 a b] s by (auto simp: s0 ab)
qed

end
