(* ===== verification/Agent_Tunnel.thy ===== *)
theory Agent_Tunnel
  imports Tunnel Pump
begin

text \<open>
  \<open>internal/agent/tunnel.go\<close>: the agent's table of tunnel sessions, and the two proxies between
  a shell and the network, \<open>ProxyData\<close> on raw bytes and \<open>ProxyDataFrames\<close> on frames. The
  proxies are pairs of goroutines as in \<open>Pump\<close>; \<open>ProxyDataFrames\<close> is written against the
  transport interface, and its correctness is proved from the laws of \<open>frame_transport\<close>.
\<close>

section \<open>Sessions\<close>

record agent_session =
  as_ID :: string
  as_Tunnel :: "tunnel option"   \<comment> \<open>\<open>None\<close>: nil\<close>
  as_Shell :: "conn option"
  as_done :: bool

record agent_manager =
  am_sessions :: "(string, nat) gomap"
  am_at :: "nat \<Rightarrow> agent_session"
  am_next :: nat

definition no_agent_session :: agent_session where
  "no_agent_session = \<lparr>as_ID = [], as_Tunnel = None, as_Shell = None, as_done = False\<rparr>"

definition agent_NewSessionManager :: agent_manager where
  "agent_NewSessionManager = \<lparr>am_sessions = [], am_at = (\<lambda>_. no_agent_session), am_next = 0\<rparr>"

text \<open>\<open>dialled\<close> is what dialling the relay gives; an error leaves the table alone.\<close>

definition agent_CreateSession ::
  "io_error + conn \<Rightarrow> string \<Rightarrow> string \<Rightarrow> agent_manager \<Rightarrow> ((transport_error + nat) \<times> agent_manager) option" where
  "agent_CreateSession dialled sessionID relayAddr m =
     (case tun_Open dialled (NewTunnel (NewRelayTransportAsResponder relayAddr sessionID)) of
        None \<Rightarrow> None
      | Some (Some e, _) \<Rightarrow> Some (Inl e, m)
      | Some (None, tun) \<Rightarrow>
          let r = am_next m;
              x = \<lparr>as_ID = sessionID, as_Tunnel = Some tun, as_Shell = None, as_done = False\<rparr>
          in Some (Inr r, m\<lparr>am_sessions := AList.update sessionID r (am_sessions m),
               am_at := (am_at m)(r := x), am_next := Suc r\<rparr>))"

text \<open>\<open>StartShell\<close> only logs.\<close>

definition StartShell :: "agent_session \<Rightarrow> transport_error option \<times> agent_session" where
  "StartShell x = (None, x)"

text \<open>\<open>Session.Close\<close>; a second one closes the channel again, which panics.\<close>

definition session_Close :: "agent_session \<Rightarrow> (transport_error option \<times> agent_session) option" where
  "session_Close x =
     (if as_done x then None
      else
        let x1 = x\<lparr>as_done := True, as_Shell := map_option conn_close (as_Shell x)\<rparr>
        in case as_Tunnel x1 of
             None \<Rightarrow> Some (None, x1)
           | Some t \<Rightarrow> map_option (\<lambda>(e, t'). (e, x1\<lparr>as_Tunnel := Some t'\<rparr>)) (tun_Close t))"

definition RemoveSession :: "string \<Rightarrow> agent_manager \<Rightarrow> agent_manager option" where
  "RemoveSession sessionID m =
     (case map_of (am_sessions m) sessionID of
        None \<Rightarrow> Some m
      | Some r \<Rightarrow>
          map_option (\<lambda>(e, x). m\<lparr>am_at := (am_at m)(r := x), am_sessions := AList.delete sessionID (am_sessions m)\<rparr>)
            (session_Close (am_at m r)))"

definition agent_GetSession :: "string \<Rightarrow> agent_manager \<Rightarrow> nat option" where
  "agent_GetSession sessionID m = map_of (am_sessions m) sessionID"

definition agent_ListSessions :: "agent_manager \<Rightarrow> nat list" where
  "agent_ListSessions m = map snd (am_sessions m)"

section \<open>\<open>ProxyData\<close>\<close>

text \<open>The two copies, and what is returned when both have ended.\<close>

definition ProxyData_step :: "(io_error, conn \<times> conn) pump \<Rightarrow> (io_error, conn \<times> conn) pump \<Rightarrow> bool" where
  "ProxyData_step = pump_step copy_turn copy_turn_back"

definition ProxyData_result :: "(io_error, conn \<times> conn) pump \<Rightarrow> io_error option" where
  "ProxyData_result p = first_error (errs p)"

section \<open>\<open>ProxyDataFrames\<close>\<close>

datatype 'e proxy_error =
    ShellError io_error
  | FrameError frame_error
  | TransportFailed 'e

text \<open>One turn of the goroutine from the shell to the transport.\<close>

definition data_frame :: "16 word \<Rightarrow> byte list \<Rightarrow> frame" where
  "data_frame streamID p = \<lparr>StreamID = streamID, Type = FrameData, Payload = p\<rparr>"

definition shell_turn ::
  "(byte list \<Rightarrow> 't \<Rightarrow> ('e option \<times> 't) option) \<Rightarrow> 16 word \<Rightarrow> conn \<times> 't \<Rightarrow> ('e proxy_error, conn \<times> 't) turn" where
  "shell_turn write_frame streamID = (\<lambda>(shell, t).
     case conn_read MaxPayloadSize shell of
       (Inl e, shell') \<Rightarrow> Return (Some (ShellError e)) (shell', t)
     | (Inr bs, shell') \<Rightarrow>
         (case MarshalBinary (data_frame streamID bs) of
            Inl e \<Rightarrow> Return (Some (FrameError e)) (shell', t)
          | Inr data \<Rightarrow>
              (case write_frame data t of
                 None \<Rightarrow> Crash
               | Some (Some e, t') \<Rightarrow> Return (Some (TransportFailed e)) (shell', t')
               | Some (None, t') \<Rightarrow> Continue (shell', t'))))"

text \<open>One turn of the goroutine from the transport to the shell.\<close>

definition wanted :: "16 word \<Rightarrow> frame \<Rightarrow> bool" where
  "wanted streamID f \<longleftrightarrow> StreamID f = streamID \<and> Type f = FrameData"

definition transport_turn ::
  "('t \<Rightarrow> (('e + byte list) \<times> 't) option) \<Rightarrow> 16 word \<Rightarrow> conn \<times> 't \<Rightarrow> ('e proxy_error, conn \<times> 't) turn" where
  "transport_turn read_frame streamID = (\<lambda>(shell, t).
     case read_frame t of
       None \<Rightarrow> Crash
     | Some (Inl e, t') \<Rightarrow> Return (Some (TransportFailed e)) (shell, t')
     | Some (Inr data, t') \<Rightarrow>
         (case UnmarshalBinary data empty_frame of
            (Some e, _) \<Rightarrow> Return (Some (FrameError e)) (shell, t')
          | (None, f) \<Rightarrow>
              if wanted streamID f
              then (case conn_write (Payload f) shell of
                      (Some e, shell') \<Rightarrow> Return (Some (ShellError e)) (shell', t')
                    | (None, shell') \<Rightarrow> Continue (shell', t'))
              else Continue (shell, t')))"

text \<open>After both have ended the shell is closed and the first error returned.\<close>

definition ProxyDataFrames_end :: "('e proxy_error, conn \<times> 't) pump \<Rightarrow> 'e proxy_error option \<times> conn \<times> 't" where
  "ProxyDataFrames_end p = (first_error (errs p), conn_close (fst (pst p)), snd (pst p))"

text \<open>
  The state of the proxy, started with \<open>shell0\<close> and \<open>t0\<close> and with \<open>fs\<close> coming in: what
  has left the shell is framed on the transport, what has come in for the stream is at the shell.
\<close>

definition proxying ::
  "('t \<Rightarrow> bool) \<Rightarrow> ('t \<Rightarrow> byte list) \<Rightarrow> ('t \<Rightarrow> byte list) \<Rightarrow> 16 word \<Rightarrow> conn \<Rightarrow> 't \<Rightarrow> frame list \<Rightarrow> conn \<times> 't \<Rightarrow> bool" where
  "proxying ready sent incoming streamID shell0 t0 fs = (\<lambda>(shell, t).
     \<not> conn_closed shell \<and> tx_room shell = None \<and> ready t \<and> (\<forall>f\<in>set fs. frame_fits f)
     \<and> (\<exists>ps. conn_stream shell0 = concat ps @ conn_stream shell \<and> (\<forall>p\<in>set ps. p \<noteq> [] \<and> length p \<le> MaxPayloadSize)
          \<and> sent t = sent t0 @ concat (map (\<lambda>p. frame_bytes (data_frame streamID p)) ps))
     \<and> (\<exists>seen todo. fs = seen @ todo \<and> incoming t = concat (map frame_bytes todo)
          \<and> tx shell = tx shell0 @ concat (map Payload (filter (wanted streamID) seen))))"

context frame_transport
begin

lemma shell_turn_ok:
  assumes inv: "proxying ready sent incoming sid shell0 t0 fs (shell, t)"
  shows "(\<exists>shell' t'. shell_turn wr sid (shell, t) = Continue (shell', t') \<and> proxying ready sent incoming sid shell0 t0 fs (shell', t')
        \<and> length (conn_stream shell') < length (conn_stream shell) \<and> incoming t' = incoming t)
    \<or> (\<exists>e shell'. shell_turn wr sid (shell, t) = Return (Some e) (shell', t) \<and> proxying ready sent incoming sid shell0 t0 fs (shell', t)
        \<and> conn_stream shell = [] \<and> conn_stream shell' = [])"
proof (cases "conn_stream shell = []")
  case True
  have "0 < MaxPayloadSize" by (simp add: MaxPayloadSize_def)
  from conn_rd.rd_none [OF refl this True] obtain shell' where
    "conn_read MaxPayloadSize shell = (Inl (conn_end shell), shell')" "conn_stream shell' = []" "outgoing shell' = outgoing shell"
    by blast
  then show ?thesis using inv True by (auto simp: shell_turn_def proxying_def outgoing_eq_iff)
next
  case False
  have "0 < MaxPayloadSize" by (simp add: MaxPayloadSize_def)
  from conn_rd.rd_some [OF refl this False] obtain p shell' where
    rd: "conn_read MaxPayloadSize shell = (Inr p, shell')" and p: "p \<noteq> []" "length p \<le> MaxPayloadSize"
    and st: "conn_stream shell = p @ conn_stream shell'" and out: "outgoing shell' = outgoing shell"
    by blast
  let ?f = "data_frame sid p"
  have fit: "frame_fits ?f" using p by (simp add: frame_fits_def data_frame_def)
  have "ready t" using inv by (simp add: proxying_def)
  from write_frame [OF this fit] obtain t' where
    t': "wr (frame_bytes ?f) t = Some (None, t')" "ready t'" "sent t' = sent t @ frame_bytes ?f" "incoming t' = incoming t"
    by blast
  have turn: "shell_turn wr sid (shell, t) = Continue (shell', t')"
    using rd t' by (simp add: shell_turn_def MarshalBinary_fits [OF fit])
  obtain ps where ps: "conn_stream shell0 = concat ps @ conn_stream shell" "\<forall>p\<in>set ps. p \<noteq> [] \<and> length p \<le> MaxPayloadSize"
    "sent t = sent t0 @ concat (map (\<lambda>p. frame_bytes (data_frame sid p)) ps)" using inv by (auto simp: proxying_def)
  have "proxying ready sent incoming sid shell0 t0 fs (shell', t')"
    unfolding proxying_def prod.case
  proof (intro conjI)
    show "\<exists>ps. conn_stream shell0 = concat ps @ conn_stream shell' \<and> (\<forall>p\<in>set ps. p \<noteq> [] \<and> length p \<le> MaxPayloadSize)
        \<and> sent t' = sent t0 @ concat (map (\<lambda>p. frame_bytes (data_frame sid p)) ps)"
      by (rule exI [of _ "ps @ [p]"]) (use ps p st t'(3) in simp)
  qed (use inv out t' in \<open>auto simp: proxying_def outgoing_eq_iff\<close>)
  then show ?thesis using turn st p t'(4) by auto
qed

lemma transport_turn_ok:
  assumes inv: "proxying ready sent incoming sid shell0 t0 fs (shell, t)"
  shows "(\<exists>shell' t'. transport_turn rd sid (shell, t) = Continue (shell', t') \<and> proxying ready sent incoming sid shell0 t0 fs (shell', t')
        \<and> length (incoming t') < length (incoming t) \<and> conn_stream shell' = conn_stream shell)
    \<or> (\<exists>e t'. transport_turn rd sid (shell, t) = Return (Some e) (shell, t') \<and> proxying ready sent incoming sid shell0 t0 fs (shell, t')
        \<and> incoming t = [] \<and> incoming t' = [])"
proof -
  obtain seen todo where fs: "fs = seen @ todo" "incoming t = concat (map frame_bytes todo)"
    "tx shell = tx shell0 @ concat (map Payload (filter (wanted sid) seen))" using inv by (auto simp: proxying_def)
  have ready: "ready t" and sh: "\<not> conn_closed shell" "tx_room shell = None" using inv by (auto simp: proxying_def)
  show ?thesis
  proof (cases todo)
    case Nil
    with fs(2) have "incoming t = []" by simp
    from read_end [OF ready this] obtain e t' where
      "rd t = Some (Inl e, t')" "ready t'" "sent t' = sent t" "incoming t' = []" by blast
    then show ?thesis using inv \<open>incoming t = []\<close> by (auto simp: transport_turn_def proxying_def)
  next
    case (Cons f rest)
    have fit: "frame_fits f" using inv fs(1) Cons by (simp add: proxying_def)
    have "incoming t = frame_bytes f @ concat (map frame_bytes rest)" using fs(2) Cons by simp
    from read_frame [OF ready fit this] obtain t' where
      t': "rd t = Some (Inr (frame_bytes f), t')" "ready t'" "sent t' = sent t" "incoming t' = concat (map frame_bytes rest)" by blast
    define shell' where "shell' = (if wanted sid f then shell\<lparr>tx := tx shell @ Payload f\<rparr> else shell)"
    have turn: "transport_turn rd sid (shell, t) = Continue (shell', t')"
      using t'(1) conn_write_ok [OF sh] UnmarshalBinary_bytes [OF fit, of "[]" empty_frame]
      by (simp add: transport_turn_def empty_frame_update shell'_def)
    have same: "conn_stream shell' = conn_stream shell" "conn_closed shell' = conn_closed shell" "tx_room shell' = tx_room shell"
      by (simp_all add: shell'_def conn_stream_def)
    have "length (incoming t') < length (incoming t)"
      using fs(2) Cons t'(4) by (simp add: length_frame_bytes FrameHeaderSize_def)
    moreover have "proxying ready sent incoming sid shell0 t0 fs (shell', t')"
      unfolding proxying_def prod.case
    proof (intro conjI)
      show "\<exists>seen todo. fs = seen @ todo \<and> incoming t' = concat (map frame_bytes todo)
          \<and> tx shell' = tx shell0 @ concat (map Payload (filter (wanted sid) seen))"
        by (rule exI [of _ "seen @ [f]"]) (use fs Cons t'(4) in \<open>simp add: shell'_def\<close>)
    qed (use inv t' same in \<open>auto simp: proxying_def\<close>)
    ultimately show ?thesis using turn same(1) by blast
  qed
qed

lemma proxy_two_way:
  "two_way (shell_turn wr sid) (transport_turn rd sid) (proxying ready sent incoming sid shell0 t0 fs)
     (\<lambda>s. length (conn_stream (fst s))) (\<lambda>s. length (incoming (snd s))) (\<lambda>e. e \<noteq> None)"
proof unfold_locales
  fix s :: "conn \<times> 't" assume inv: "proxying ready sent incoming sid shell0 t0 fs s"
  obtain shell t where s: "s = (shell, t)" by fastforce
  show "(\<exists>s'. shell_turn wr sid s = Continue s' \<and> proxying ready sent incoming sid shell0 t0 fs s'
        \<and> length (conn_stream (fst s')) < length (conn_stream (fst s)) \<and> length (incoming (snd s')) = length (incoming (snd s)))
    \<or> (\<exists>e s'. shell_turn wr sid s = Return e s' \<and> proxying ready sent incoming sid shell0 t0 fs s' \<and> length (conn_stream (fst s)) = 0
        \<and> length (conn_stream (fst s')) = 0 \<and> length (incoming (snd s')) = length (incoming (snd s)) \<and> e \<noteq> None)"
    using shell_turn_ok [of sid shell0 t0 fs shell t] inv by (fastforce simp: s)
  show "(\<exists>s'. transport_turn rd sid s = Continue s' \<and> proxying ready sent incoming sid shell0 t0 fs s'
        \<and> length (incoming (snd s')) < length (incoming (snd s)) \<and> length (conn_stream (fst s')) = length (conn_stream (fst s)))
    \<or> (\<exists>e s'. transport_turn rd sid s = Return e s' \<and> proxying ready sent incoming sid shell0 t0 fs s' \<and> length (incoming (snd s)) = 0
        \<and> length (incoming (snd s')) = 0 \<and> length (conn_stream (fst s')) = length (conn_stream (fst s)) \<and> e \<noteq> None)"
    using transport_turn_ok [of sid shell0 t0 fs shell t] inv by (fastforce simp: s)
qed

end

text \<open>Over the relay transport.\<close>

interpretation relay_proxy: two_way "shell_turn WriteFrame sid" "transport_turn ReadFrame sid"
  "proxying rt_ready rt_sent rt_incoming sid shell0 t0 fs" "\<lambda>s. length (conn_stream (fst s))"
  "\<lambda>s. length (rt_incoming (snd s))" "\<lambda>e. e \<noteq> None" for sid shell0 t0 fs
  by (rule relay_tr.proxy_two_way)

section \<open>Properties\<close>

text \<open>
  C5: \<open>ProxyDataFrames\<close> moves everything, both ways, and ends. For a shell that takes its input and an open
  transport, and under every interleaving of the two goroutines: the proxy takes
  at most one step for each byte of either side and two more, never crashes, and can always be run
  to its end. In the end everything the shell printed is on the transport, cut into data
  frames of the stream of at most 64 KiB each, and the shell has been given exactly the payloads of
  the data frames of its stream, in order, and no other frame's; the shell is closed. An error is returned
  in every case, that of the side that ended first, also when both sides ended regularly.
\<close>

theorem proxy_frames_complete:
  fixes shell :: conn and t :: relay_transport
  assumes shell: "\<not> conn_closed shell" "tx_room shell = None" and t: "rt_ready t"
    and fs: "\<forall>f\<in>set fs. length (Payload f) \<le> MaxPayloadSize" "rt_incoming t = concat (map frame_bytes fs)"
  shows "(\<forall>n q. (pump_step (shell_turn WriteFrame sid) (transport_turn ReadFrame sid) ^^ n) (start_pump (shell, t)) q \<longrightarrow>
        n \<le> length (conn_stream shell) + length (rt_incoming t) + 2)
    \<and> (\<forall>q. (pump_step (shell_turn WriteFrame sid) (transport_turn ReadFrame sid))\<^sup>*\<^sup>* (start_pump (shell, t)) q \<longrightarrow> \<not> crashed q)
    \<and> (\<exists>q. (pump_step (shell_turn WriteFrame sid) (transport_turn ReadFrame sid))\<^sup>*\<^sup>* (start_pump (shell, t)) q \<and> finished q)
    \<and> (\<forall>q. (pump_step (shell_turn WriteFrame sid) (transport_turn ReadFrame sid))\<^sup>*\<^sup>* (start_pump (shell, t)) q \<and> finished q \<longrightarrow>
        (\<exists>e shell' t' ps. ProxyDataFrames_end q = (Some e, shell', t') \<and> conn_closed shell'
          \<and> concat ps = conn_stream shell \<and> (\<forall>p\<in>set ps. p \<noteq> [] \<and> length p \<le> MaxPayloadSize)
          \<and> rt_sent t' = rt_sent t @ concat (map (\<lambda>p. frame_bytes (data_frame sid p)) ps)
          \<and> tx shell' = tx shell @ concat (map Payload (filter (wanted sid) fs))))"
proof -
  have inv: "proxying rt_ready rt_sent rt_incoming sid shell t fs (shell, t)"
    unfolding proxying_def prod.case
  proof (intro conjI)
    show "\<exists>ps. conn_stream shell = concat ps @ conn_stream shell \<and> (\<forall>p\<in>set ps. p \<noteq> [] \<and> length p \<le> MaxPayloadSize)
        \<and> rt_sent t = rt_sent t @ concat (map (\<lambda>p. frame_bytes (data_frame sid p)) ps)" by (rule exI [of _ "[]"]) simp
    show "\<exists>seen todo. fs = seen @ todo \<and> rt_incoming t = concat (map frame_bytes todo)
        \<and> tx shell = tx shell @ concat (map Payload (filter (wanted sid) seen))" by (rule exI [of _ "[]"]) (use fs in simp)
  qed (use shell t fs in \<open>auto simp: frame_fits_def\<close>)
  note C = relay_proxy.pump_complete [OF inv]
  have "\<exists>e shell' t' ps. ProxyDataFrames_end q = (Some e, shell', t') \<and> conn_closed shell'
          \<and> concat ps = conn_stream shell \<and> (\<forall>p\<in>set ps. p \<noteq> [] \<and> length p \<le> MaxPayloadSize)
          \<and> rt_sent t' = rt_sent t @ concat (map (\<lambda>p. frame_bytes (data_frame sid p)) ps)
          \<and> tx shell' = tx shell @ concat (map Payload (filter (wanted sid) fs))"
    if q: "(pump_step (shell_turn WriteFrame sid) (transport_turn ReadFrame sid))\<^sup>*\<^sup>* (start_pump (shell, t)) q" "finished q" for q
  proof -
    obtain sh' t' where st: "pst q = (sh', t')" by fastforce
    have D: "proxying rt_ready rt_sent rt_incoming sid shell t fs (sh', t')" "conn_stream sh' = []" "rt_incoming t' = []"
      "length (errs q) = 2" "\<forall>e\<in>set (errs q). e \<noteq> None" using C(4) q st by auto
    have "first_error (errs q) \<noteq> None" using D(4,5) by (cases "errs q") (auto simp: first_error_None)
    then obtain e where e: "first_error (errs q) = Some e" by blast
    obtain ps where ps: "concat ps = conn_stream shell" "\<forall>p\<in>set ps. p \<noteq> [] \<and> length p \<le> MaxPayloadSize"
      "rt_sent t' = rt_sent t @ concat (map (\<lambda>p. frame_bytes (data_frame sid p)) ps)" using D(1,2) by (auto simp: proxying_def)
    obtain seen todo where s: "fs = seen @ todo" "rt_incoming t' = concat (map frame_bytes todo)"
      "tx sh' = tx shell @ concat (map Payload (filter (wanted sid) seen))" using D(1) by (auto simp: proxying_def)
    have "todo = []" using s(2) D(3) by (cases todo) (auto simp: frame_bytes_def)
    then show ?thesis
      using e ps s st by (auto simp: ProxyDataFrames_end_def conn_simps)
  qed
  with C(1-3) show ?thesis by auto
qed

theorem proxy_frames_complete_witness:
  "\<exists>q. (pump_step (shell_turn WriteFrame 2) (transport_turn ReadFrame 2))\<^sup>*\<^sup>*
      (start_pump (demo_conn [[104], [105]], (NewRelayTransportAsResponder [] ''s'')\<lparr>rt_conn := Some (demo_conn [])\<rparr>)) q \<and> finished q"
proof -
  have "rt_ready ((NewRelayTransportAsResponder [] ''s'')\<lparr>rt_conn := Some (demo_conn [])\<rparr>)"
    "rt_incoming ((NewRelayTransportAsResponder [] ''s'')\<lparr>rt_conn := Some (demo_conn [])\<rparr>) = concat (map frame_bytes [])"
    by (simp_all add: rt_ready_def rt_incoming_def demo_conn_def conn_stream_def)
  then show ?thesis
    using proxy_frames_complete [of "demo_conn [[104], [105]]" "(NewRelayTransportAsResponder [] ''s'')\<lparr>rt_conn := Some (demo_conn [])\<rparr>" "[]" 2]
    by (simp add: demo_conn_def)
qed

text \<open>
  C20: \<open>ProxyData\<close> copies everything, both ways, and ends: for two open ends and under every interleaving of the two copies
  it takes at most one step per byte and two more, never crashes, and in the end each
  side has been given exactly what the other one sent; the result is nil if both ended with
  end of file, and otherwise one of the errors with which they ended.
\<close>

theorem proxy_data_complete:
  fixes shell conn :: conn
  assumes "\<not> conn_closed shell" "\<not> conn_closed conn" "tx_room shell = None" "tx_room conn = None"
  shows "(\<forall>n q. (ProxyData_step ^^ n) (start_pump (shell, conn)) q \<longrightarrow> n \<le> length (conn_stream shell) + length (conn_stream conn) + 2)
    \<and> (\<forall>q. ProxyData_step\<^sup>*\<^sup>* (start_pump (shell, conn)) q \<longrightarrow> \<not> crashed q)
    \<and> (\<exists>q. ProxyData_step\<^sup>*\<^sup>* (start_pump (shell, conn)) q \<and> finished q)
    \<and> (\<forall>q. ProxyData_step\<^sup>*\<^sup>* (start_pump (shell, conn)) q \<and> finished q \<longrightarrow>
        tx (snd (pst q)) = tx conn @ conn_stream shell \<and> tx (fst (pst q)) = tx shell @ conn_stream conn
        \<and> (case ProxyData_result q of None \<Rightarrow> True | Some e \<Rightarrow> e \<noteq> EOF \<and> e \<in> {conn_end shell, conn_end conn})
        \<and> (conn_end shell = EOF \<and> conn_end conn = EOF \<longrightarrow> ProxyData_result q = None))"
proof -
  have inv: "copying (shell, conn) (shell, conn)" using assms by (simp add: copying_def)
  note C = copy_both.pump_complete [OF inv, folded ProxyData_step_def]
  have "tx (snd (pst q)) = tx conn @ conn_stream shell \<and> tx (fst (pst q)) = tx shell @ conn_stream conn
        \<and> (case ProxyData_result q of None \<Rightarrow> True | Some e \<Rightarrow> e \<noteq> EOF \<and> e \<in> {conn_end shell, conn_end conn})
        \<and> (conn_end shell = EOF \<and> conn_end conn = EOF \<longrightarrow> ProxyData_result q = None)"
    if q: "ProxyData_step\<^sup>*\<^sup>* (start_pump (shell, conn)) q" "finished q" for q
  proof -
    obtain a b where st: "pst q = (a, b)" by fastforce
    have D: "copying (shell, conn) (a, b)" "conn_stream a = []" "conn_stream b = []"
      "\<forall>e\<in>set (errs q). e \<in> {copy_error (conn_end shell), copy_error (conn_end conn)}"
      using C(4) [THEN spec, of q] q st by simp_all
    have mem: "first_error es = Some e \<Longrightarrow> Some e \<in> set es" for e :: io_error and es
      by (induction es rule: first_error.induct) auto
    have "case ProxyData_result q of None \<Rightarrow> True | Some e \<Rightarrow> e \<noteq> EOF \<and> e \<in> {conn_end shell, conn_end conn}"
    proof (cases "ProxyData_result q")
      case (Some e)
      then have "Some e \<in> set (errs q)" using mem [of "errs q" e] by (simp add: ProxyData_result_def)
      then have "Some e = copy_error (conn_end shell) \<or> Some e = copy_error (conn_end conn)" using D(4) by auto
      with Some show ?thesis by (auto simp: copy_error_def split: if_splits)
    qed simp
    moreover have "ProxyData_result q = None" if "conn_end shell = EOF" "conn_end conn = EOF"
      using D(4) that by (simp add: ProxyData_result_def first_error_None copy_error_def)
    ultimately show ?thesis using D(1-3) st by (auto simp: copying_def)
  qed
  with C(1-3) show ?thesis by auto
qed

theorem proxy_data_complete_witness:
  "\<exists>q. ProxyData_step\<^sup>*\<^sup>* (start_pump (demo_conn [[104], [105]], demo_conn [[1]])) q \<and> finished q
    \<and> tx (snd (pst q)) = [104, 105] \<and> tx (fst (pst q)) = [1]"
  using proxy_data_complete [of "demo_conn [[104], [105]]" "demo_conn [[1]]"]
  by (auto simp: demo_conn_def conn_stream_def)

text \<open>
  The table: what is created is found; removing it closes its connection, and removing it again
  does nothing; but a session closed through its pointer panics when it is removed, and a second session under one id takes
  the first one's place without closing it.
\<close>

lemma session_table:
  assumes "agent_CreateSession (Inr c) sid addr m = Some (Inr r, m')"
  shows "agent_GetSession sid m' = Some r" and "as_ID (am_at m' r) = sid" and "\<not> as_done (am_at m' r)"
    and "\<exists>m''. RemoveSession sid m' = Some m'' \<and> agent_GetSession sid m'' = None \<and> RemoveSession sid m'' = Some m''
      \<and> (\<exists>t c'. as_Tunnel (am_at m'' r) = Some t \<and> IsClosed t \<and> rt_conn (tun_transport t) = Some c' \<and> conn_closed c')"
    and "session_Close (am_at m' r) = Some (e, x) \<Longrightarrow> RemoveSession sid (m'\<lparr>am_at := (am_at m')(r := x)\<rparr>) = None"
    and "agent_GetSession sid m = Some k \<Longrightarrow> k < r \<Longrightarrow> am_at m' k = am_at m k"
proof -
  obtain tun where tun: "tun_Open (Inr c) (NewTunnel (NewRelayTransportAsResponder addr sid)) = Some (None, tun)"
    and m': "r = am_next m" "m' = m\<lparr>am_sessions := AList.update sid r (am_sessions m),
        am_at := (am_at m)(r := \<lparr>as_ID = sid, as_Tunnel = Some tun, as_Shell = None, as_done = False\<rparr>), am_next := Suc r\<rparr>"
    using assms by (auto simp: agent_CreateSession_def Let_def split: option.splits prod.splits)
  obtain d where d: "rt_conn (tun_transport tun) = Some d" "\<not> tun_closed tun"
    using tun by (auto simp: tun_Open_def rt_Open_def NewTunnel_def split: option.splits prod.splits sum.splits)
  show "agent_GetSession sid m' = Some r" "as_ID (am_at m' r) = sid" "\<not> as_done (am_at m' r)"
    by (simp_all add: m' agent_GetSession_def)
  show "\<exists>m''. RemoveSession sid m' = Some m'' \<and> agent_GetSession sid m'' = None \<and> RemoveSession sid m'' = Some m''
      \<and> (\<exists>t c'. as_Tunnel (am_at m'' r) = Some t \<and> IsClosed t \<and> rt_conn (tun_transport t) = Some c' \<and> conn_closed c')"
    using d by (simp add: m'(2) RemoveSession_def session_Close_def tun_Close_def rt_Close_def agent_GetSession_def IsClosed_def conn_simps)
  show "RemoveSession sid (m'\<lparr>am_at := (am_at m')(r := x)\<rparr>) = None" if "session_Close (am_at m' r) = Some (e, x)"
    using that d by (auto simp: m'(2) RemoveSession_def session_Close_def tun_Close_def split: prod.splits)
  show "am_at m' k = am_at m k" if "agent_GetSession sid m = Some k" "k < r"
    using that by (simp add: m'(2))
qed

end
