(* ===== verification/Shell.thy ===== *)
theory Shell
  imports Agent_Tunnel
begin

text \<open>
  \<open>internal/agent/proxy/shell.go\<close>: an interactive shell on a pseudo-terminal. The terminal is
  a connection; what \<open>Close\<close> does to the process and to the callback is kept as a list of
  actions. Starting a process on a terminal and setting its size belong to the \<open>pty\<close>
  package: their results are arguments.
\<close>

datatype shell_action = Hangup | ClosePty | WaitProcess | CallOnClose

record shell_session =
  cmd_process :: bool     \<comment> \<open>\<open>cmd.Process\<close> is not nil\<close>
  ptmx :: conn
  shell_closed :: bool
  onClose :: bool         \<comment> \<open>a callback is registered\<close>
  actions :: "shell_action list"

text \<open>\<open>defaultShell\<close>, from the environment and the files there are.\<close>

definition defaultShell :: "string \<Rightarrow> (string \<Rightarrow> bool) \<Rightarrow> string" where
  "defaultShell env_SHELL file_exists =
     (if env_SHELL \<noteq> [] then env_SHELL
      else case filter file_exists [''/bin/bash'', ''/bin/zsh'', ''/bin/sh''] of
             x # _ \<Rightarrow> x
           | [] \<Rightarrow> ''/bin/sh'')"

text \<open>\<open>NewShellSession\<close>: \<open>started\<close> is what \<open>pty.Start\<close> returns for a program and its environment.\<close>

definition NewShellSession ::
  "(string \<Rightarrow> string list \<Rightarrow> io_error + conn) \<Rightarrow> string \<Rightarrow> (string \<Rightarrow> bool) \<Rightarrow> string list \<Rightarrow> io_error + shell_session" where
  "NewShellSession started env_SHELL file_exists environ =
     (case started (defaultShell env_SHELL file_exists) (environ @ [''TERM=xterm-256color'']) of
        Inl e \<Rightarrow> Inl e
      | Inr c \<Rightarrow> Inr \<lparr>cmd_process = True, ptmx = c, shell_closed = False, onClose = False, actions = []\<rparr>)"

definition shell_Read :: "nat \<Rightarrow> shell_session \<Rightarrow> (io_error + byte list) \<times> shell_session" where
  "shell_Read k s = (case conn_read k (ptmx s) of (r, c) \<Rightarrow> (r, s\<lparr>ptmx := c\<rparr>))"

definition shell_Write :: "byte list \<Rightarrow> shell_session \<Rightarrow> io_error option \<times> shell_session" where
  "shell_Write p s = (case conn_write p (ptmx s) of (e, c) \<Rightarrow> (e, s\<lparr>ptmx := c\<rparr>))"

text \<open>\<open>setsize\<close> is the outcome of \<open>pty.Setsize\<close>; a closed session does not try.\<close>

definition Resize :: "(16 word \<Rightarrow> 16 word \<Rightarrow> io_error option) \<Rightarrow> 16 word \<Rightarrow> 16 word \<Rightarrow> shell_session \<Rightarrow> io_error option" where
  "Resize setsize rows cols s = (if shell_closed s then None else setsize rows cols)"

definition act :: "bool \<Rightarrow> shell_action \<Rightarrow> shell_session \<Rightarrow> shell_session" where
  "act b x s = (if b then s\<lparr>actions := actions s @ [x]\<rparr> else s)"

definition shell_Close :: "shell_session \<Rightarrow> io_error option \<times> shell_session" where
  "shell_Close s =
     (if shell_closed s then (None, s)
      else
        let s1 = act (cmd_process s) Hangup (s\<lparr>shell_closed := True\<rparr>);
            err = (if conn_closed (ptmx s1) then Some ErrClosed else None);
            s2 = act True ClosePty (s1\<lparr>ptmx := conn_close (ptmx s1)\<rparr>);
            s3 = act (cmd_process s2) WaitProcess s2
        in (err, act (onClose s3) CallOnClose s3))"

definition OnClose :: "shell_session \<Rightarrow> shell_session" where
  "OnClose s = s\<lparr>onClose := True\<rparr>"

text \<open>
  \<open>Pipe\<close>: two copies between the terminal and the stream, as in \<open>ProxyData\<close>, on the
  session's terminal.
\<close>

definition Pipe_start :: "shell_session \<Rightarrow> conn \<Rightarrow> (io_error, conn \<times> conn) pump" where
  "Pipe_start s stream = start_pump (ptmx s, stream)"

definition Pipe_step :: "(io_error, conn \<times> conn) pump \<Rightarrow> (io_error, conn \<times> conn) pump \<Rightarrow> bool" where
  "Pipe_step = pump_step copy_turn copy_turn_back"

definition Pipe_end :: "shell_session \<Rightarrow> (io_error, conn \<times> conn) pump \<Rightarrow> io_error option \<times> shell_session \<times> conn" where
  "Pipe_end s p = (first_error (errs p), s\<lparr>ptmx := fst (pst p)\<rparr>, snd (pst p))"

section \<open>Properties\<close>

lemma copies_end:
  assumes "\<not> conn_closed a" "\<not> conn_closed b" "tx_room a = None" "tx_room b = None"
    and "(pump_step copy_turn copy_turn_back)\<^sup>*\<^sup>* (start_pump (a, b)) q" "finished q"
  shows "tx (snd (pst q)) = tx b @ conn_stream a \<and> tx (fst (pst q)) = tx a @ conn_stream b \<and> conn_stream (fst (pst q)) = []"
proof -
  have "copying (a, b) (a, b)" using assms(1-4) by (simp add: copying_def)
  from copy_both.pump_complete(4) [OF this] assms(5,6)
  show ?thesis by (cases "pst q") (auto simp: copying_def)
qed

text \<open>
  C31: a shell session is closed once. Closing it hangs up the process, closes the terminal, waits for
  the process and calls the callback, in this order, each once, however often \<open>Close\<close> is
  called; later calls succeed and change nothing, later reads and writes fail, and later resizes do nothing. Before
  that, \<open>Pipe\<close> on open ends gives the stream exactly what the shell printed and the shell
  exactly what the stream sent.
\<close>

theorem shell_closed_once:
  assumes new: "NewShellSession started env_SHELL file_exists environ = Inr s" and ends: "\<not> conn_closed (ptmx s)" "tx_room (ptmx s) = None"
    and stream: "\<not> conn_closed stream" "tx_room stream = None"
  shows "\<exists>s'. shell_Close (OnClose s) = (None, s') \<and> actions s' = [Hangup, ClosePty, WaitProcess, CallOnClose]
      \<and> ((snd \<circ> shell_Close) ^^ n) s' = s' \<and> fst (shell_Close s') = None
      \<and> fst (shell_Read k s') = Inl ErrClosed \<and> fst (shell_Write bs s') = Some ErrClosed \<and> Resize setsize rows cols s' = None
    \<and> (\<exists>q. Pipe_step\<^sup>*\<^sup>* (Pipe_start s stream) q \<and> finished q)
    \<and> (\<forall>q. Pipe_step\<^sup>*\<^sup>* (Pipe_start s stream) q \<and> finished q \<longrightarrow>
        (\<exists>e s1 stream'. Pipe_end s q = (e, s1, stream') \<and> tx stream' = tx stream @ conn_stream (ptmx s)
          \<and> tx (ptmx s1) = tx (ptmx s) @ conn_stream stream \<and> \<not> shell_closed s1))"
proof -
  have s: "cmd_process s" "\<not> shell_closed s" "actions s = []"
    using new by (auto simp: NewShellSession_def split: sum.splits)
  obtain s' where s': "shell_Close (OnClose s) = (None, s')" "actions s' = [Hangup, ClosePty, WaitProcess, CallOnClose]"
    "shell_closed s'" "conn_closed (ptmx s')"
    using s ends(1) by (auto simp: shell_Close_def OnClose_def act_def Let_def conn_simps)
  have twice: "shell_Close s' = (None, s')" using s'(3) by (simp add: shell_Close_def)
  then have "((snd \<circ> shell_Close) ^^ n) s' = s'" by (induction n) simp_all
  moreover have "fst (shell_Read k s') = Inl ErrClosed" "fst (shell_Write bs s') = Some ErrClosed" "Resize setsize rows cols s' = None"
    using s'(3,4) by (simp_all add: shell_Read_def shell_Write_def Resize_def conn_read_def conn_write_def)
  moreover have "\<exists>q. Pipe_step\<^sup>*\<^sup>* (Pipe_start s stream) q \<and> finished q"
    using copy_both.pump_complete(2) [of "(ptmx s, stream)" "(ptmx s, stream)"] ends stream
    by (simp add: Pipe_step_def Pipe_start_def copying_def)
  moreover have "\<exists>e s1 stream'. Pipe_end s q = (e, s1, stream') \<and> tx stream' = tx stream @ conn_stream (ptmx s)
          \<and> tx (ptmx s1) = tx (ptmx s) @ conn_stream stream \<and> \<not> shell_closed s1"
    if "Pipe_step\<^sup>*\<^sup>* (Pipe_start s stream) q" "finished q" for q
    using copies_end [OF ends(1) stream(1) ends(2) stream(2)] that s(2) by (simp add: Pipe_step_def Pipe_start_def Pipe_end_def)
  ultimately show ?thesis using s'(1,2) twice by auto
qed

theorem shell_closed_once_witness:
  "\<exists>s'. shell_Close \<lparr>cmd_process = True, ptmx = demo_conn [[104]], shell_closed = False, onClose = True, actions = []\<rparr> = (None, s')
     \<and> actions s' = [Hangup, ClosePty, WaitProcess, CallOnClose]"
proof -
  let ?s = "\<lparr>cmd_process = True, ptmx = demo_conn [[104]], shell_closed = False, onClose = False, actions = []\<rparr>"
  have "NewShellSession (\<lambda>_ _. Inr (demo_conn [[104]])) [] (\<lambda>_. True) [] = Inr ?s" by (simp add: NewShellSession_def)
  from shell_closed_once [OF this, of "demo_conn []" 0 0 "[]" "\<lambda>_ _. None" 0 0] show ?thesis
    by (simp add: OnClose_def demo_conn_def) blast
qed

text \<open>Which shell is started.\<close>

lemma defaultShell_cases:
  "defaultShell env ex =
     (if env \<noteq> [] then env else if ex ''/bin/bash'' then ''/bin/bash'' else if ex ''/bin/zsh'' then ''/bin/zsh'' else ''/bin/sh'')"
  by (simp add: defaultShell_def)

end
