(* ===== verification/Digest.thy ===== *)
theory Digest
  imports Prelude
begin

text \<open>
  What the agent uses of \<open>crypto/sha256\<close>, \<open>encoding/hex\<close> and \<open>encoding/base64\<close> to make its device
  id: SHA-256, lower-case hexadecimal, and base64 in the URL alphabet without padding.
\<close>

section \<open>SHA-256\<close>

text \<open>
  The constants are the first 32 bits of the fractions of the square roots of the first
  8 primes and of the cube roots of the first 64; they are computed from that, bit by bit.
\<close>

fun int_root :: "nat \<Rightarrow> nat \<Rightarrow> nat \<Rightarrow> nat \<Rightarrow> nat" where
  "int_root k 0 t acc = acc"
| "int_root k (Suc i) t acc = int_root k i t (if (acc + 2 ^ i) ^ k \<le> t then acc + 2 ^ i else acc)"

definition root_fraction :: "nat \<Rightarrow> nat \<Rightarrow> 32 word" where
  "root_fraction k p = word_of_nat (int_root k 40 (p * 2 ^ (32 * k)) 0)"

definition first_primes :: "nat list" where
  "first_primes = filter (\<lambda>n. list_all (\<lambda>d. n mod d \<noteq> 0) [2..<n]) [2..<312]"

definition sha_k :: "32 word list" where
  "sha_k = map (root_fraction 3) first_primes"

definition sha_init :: "32 word list" where
  "sha_init = map (root_fraction 2) [2, 3, 5, 7, 11, 13, 17, 19]"

definition ror :: "nat \<Rightarrow> 32 word \<Rightarrow> 32 word" where
  "ror n x = drop_bit n x OR push_bit (32 - n) x"

definition sigma0 :: "32 word \<Rightarrow> 32 word" where
  "sigma0 x = ror 7 x XOR ror 18 x XOR drop_bit 3 x"

definition sigma1 :: "32 word \<Rightarrow> 32 word" where
  "sigma1 x = ror 17 x XOR ror 19 x XOR drop_bit 10 x"

text \<open>The message schedule, newest word first.\<close>

fun schedule :: "nat \<Rightarrow> 32 word list \<Rightarrow> 32 word list" where
  "schedule 0 ws = ws"
| "schedule (Suc n) ws = schedule n ((sigma1 (ws ! 1) + ws ! 6 + sigma0 (ws ! 14) + ws ! 15) # ws)"

fun sha_round :: "32 word \<times> 32 word \<Rightarrow> 32 word list \<Rightarrow> 32 word list" where
  "sha_round (k, w) [a, b, c, d, e, f, g, h] =
     (let s1 = ror 6 e XOR ror 11 e XOR ror 25 e;
          ch = (e AND f) XOR (NOT e AND g);
          t1 = h + s1 + ch + k + w;
          s0 = ror 2 a XOR ror 13 a XOR ror 22 a;
          maj = (a AND b) XOR (a AND c) XOR (b AND c)
      in [t1 + (s0 + maj), a, b, c, d + t1, e, f, g])"
| "sha_round kw hs = hs"

fun words_of :: "byte list \<Rightarrow> 32 word list" where
  "words_of (a # b # c # d # bs) = get_uint32 [a, b, c, d] # words_of bs"
| "words_of _ = []"

definition sha_block :: "byte list \<Rightarrow> 32 word list \<Rightarrow> 32 word list" where
  "sha_block block hs =
     (let ws = rev (schedule 48 (rev (words_of block)))
      in map2 (+) hs (fold sha_round (zip sha_k ws) hs))"

fun sha_blocks :: "nat \<Rightarrow> byte list \<Rightarrow> 32 word list \<Rightarrow> 32 word list" where
  "sha_blocks 0 bs hs = hs"
| "sha_blocks (Suc n) bs hs = sha_blocks n (drop 64 bs) (sha_block (take 64 bs) hs)"

definition sha_pad :: "byte list \<Rightarrow> byte list" where
  "sha_pad bs =
     (let n = length bs; bits = (word_of_nat (8 * n) :: 64 word)
      in bs @ [0x80] @ replicate ((119 - n mod 64) mod 64) 0
           @ put_uint32 (ucast (drop_bit 32 bits)) @ put_uint32 (ucast bits))"

definition sha256 :: "byte list \<Rightarrow> byte list" where
  "sha256 bs = (let m = sha_pad bs in concat (map put_uint32 (sha_blocks (length m div 64) m sha_init)))"

section \<open>Hexadecimal and base64\<close>

definition hex_digit :: "nat \<Rightarrow> char" where
  "hex_digit n = ''0123456789abcdef'' ! n"

definition hex_encode :: "byte list \<Rightarrow> string" where
  "hex_encode bs = concat (map (\<lambda>b. [hex_digit (unat b div 16), hex_digit (unat b mod 16)]) bs)"

definition b64_digit :: "nat \<Rightarrow> char" where
  "b64_digit n = ''ABCDEFGHIJKLMNOPQRSTUVWXYZabcdefghijklmnopqrstuvwxyz0123456789-_'' ! n"

fun base64_url :: "byte list \<Rightarrow> string" where
  "base64_url [] = []"
| "base64_url [a] = (let n = unat a * 16 in [b64_digit (n div 64), b64_digit (n mod 64)])"
| "base64_url [a, b] =
     (let n = (unat a * 256 + unat b) * 4 in [b64_digit (n div 4096), b64_digit (n div 64 mod 64), b64_digit (n mod 64)])"
| "base64_url (a # b # c # bs) =
     (let n = (unat a * 256 + unat b) * 256 + unat c
      in [b64_digit (n div 262144), b64_digit (n div 4096 mod 64), b64_digit (n div 64 mod 64), b64_digit (n mod 64)] @ base64_url bs)"

section \<open>Lengths and letters\<close>

lemma length_schedule [simp]: "length (schedule n ws) = n + length ws"
  by (induction n ws rule: schedule.induct) simp_all

lemma length_sha_round: "length (sha_round kw hs) = length hs"
  by (cases "(kw, hs)" rule: sha_round.cases) (simp_all add: Let_def)

lemma length_fold_round: "length (fold sha_round kws hs) = length hs"
  by (induction kws arbitrary: hs) (simp_all add: length_sha_round)

lemma length_sha_blocks: "length (sha_blocks n bs hs) = length hs"
  by (induction n bs hs rule: sha_blocks.induct) (simp_all add: sha_block_def Let_def length_fold_round)

lemma length_sha256 [simp]: "length (sha256 bs) = 32"
proof -
  have "length (concat (map put_uint32 ws)) = 4 * length ws" for ws by (induction ws) simp_all
  then show ?thesis by (simp add: sha256_def Let_def length_sha_blocks sha_init_def)
qed

text \<open>Padding completes the last block, whatever the length.\<close>

lemma sha_pad_blocks: "length (sha_pad bs) mod 64 = 0"
proof -
  define q r where "q = length bs div 64" and "r = length bs mod 64"
  have n: "length bs = 64 * q + r" "r < 64" by (simp_all add: q_def r_def)
  have "length (sha_pad bs) = length bs + 9 + (119 - r) mod 64" by (simp add: sha_pad_def Let_def r_def)
  also have "\<dots> = (if r \<le> 55 then 64 * (q + 1) else 64 * (q + 2))"
  proof (cases "r \<le> 55")
    case True
    then have "119 - r = 64 + (55 - r)" by simp
    then have "(119 - r) mod 64 = (55 - r) mod 64" by (simp only: mod_add_self1)
    then have "(119 - r) mod 64 = 55 - r" by simp
    then show ?thesis using n(1) True by simp
  next
    case False
    then have "(119 - r) mod 64 = 119 - r" by simp
    then show ?thesis using n False by simp
  qed
  finally show ?thesis by simp
qed

definition url_char :: "char \<Rightarrow> bool" where
  "url_char c \<longleftrightarrow> c \<in> set ''ABCDEFGHIJKLMNOPQRSTUVWXYZabcdefghijklmnopqrstuvwxyz0123456789-_''"

lemma url_char_digit: "n < 64 \<Longrightarrow> url_char (b64_digit n)"
  unfolding url_char_def b64_digit_def by (rule nth_mem) simp

lemma byte_bound: "unat (b :: byte) < 256"
  using unsigned_less [of b] by simp

lemma base64_url_chars: "list_all url_char (base64_url bs)"
proof (induction bs rule: base64_url.induct)
  case (2 a)
  show ?case using byte_bound [of a] by (simp add: Let_def url_char_digit)
next
  case (3 a b)
  show ?case using byte_bound [of a] byte_bound [of b] by (simp add: Let_def url_char_digit)
next
  case (4 a b c bs)
  have "((unat a * 256 + unat b) * 256 + unat c) div 262144 < 64"
    using byte_bound [of a] byte_bound [of b] byte_bound [of c] by simp
  then show ?case using 4 by (simp add: Let_def url_char_digit)
qed simp

lemma length_base64_url: "length (base64_url bs) = (4 * length bs + 2) div 3"
proof (induction bs rule: base64_url.induct)
  case (4 a b c bs)
  have "(4 * length (a # b # c # bs) + 2) div 3 = 4 + (4 * length bs + 2) div 3" by simp
  then show ?case using 4 by (simp add: Let_def)
qed (simp_all add: Let_def)

end
