(* ===== verification/Agent.thy ===== *)
theory Agent
  imports Signal_Properties Digest
begin

text \<open>
  \<open>internal/agent/register.go\<close>: the agent of a device. It makes a device id, connects to the signal
  server, registers, answers connection requests, sends heartbeats, and reconnects. The
  WebSocket library is only called: what comes in on the connection, the ticks of the clock and the
  cancellation of the context are a list of events, and how many messages the connection takes is a
  field of it. Then the agent and the signal server together.
\<close>

section \<open>Configuration and identity\<close>

definition DefaultSignalURL :: string where "DefaultSignalURL = ''ws://localhost:10980/signal''"

text \<open>The delays, in seconds.\<close>

definition agent_HeartbeatInterval :: nat where "agent_HeartbeatInterval = 30"
definition ReconnectBaseDelay :: nat where "ReconnectBaseDelay = 1"
definition ReconnectMaxDelay :: nat where "ReconnectMaxDelay = 30"
definition MaxReconnectAttempts :: nat where "MaxReconnectAttempts = 0"

record agent_config =
  cfg_ServerURL :: string
  cfg_DeviceName :: string
  cfg_Platform :: string
  cfg_Version :: string
  cfg_KeyPath :: string

definition agent_DefaultConfig :: agent_config where
  "agent_DefaultConfig = \<lparr>cfg_ServerURL = DefaultSignalURL, cfg_DeviceName = ''cloudbridge-agent'', cfg_Platform = [],
     cfg_Version = ''0.1.0'', cfg_KeyPath = []\<rparr>"

text \<open>A WebSocket connection, as far as the agent sees it.\<close>

record ws_conn =
  ws_out :: "string list"
  ws_room :: "nat option"   \<comment> \<open>how many more messages it takes; \<open>None\<close>: all\<close>
  ws_closed :: bool

definition ws_write :: "string \<Rightarrow> ws_conn \<Rightarrow> string option \<times> ws_conn" where
  "ws_write msg c =
     (if ws_closed c then (Some ''use of closed network connection'', c)
      else case ws_room c of
             None \<Rightarrow> (None, c\<lparr>ws_out := ws_out c @ [msg]\<rparr>)
           | Some 0 \<Rightarrow> (Some ''write failed'', c)
           | Some (Suc n) \<Rightarrow> (None, c\<lparr>ws_out := ws_out c @ [msg], ws_room := Some n\<rparr>))"

record agent =
  ag_config :: agent_config
  ag_deviceID :: string
  ag_token :: string
  ag_conn :: "ws_conn option"
  ag_done :: bool

text \<open>
  \<open>generateDeviceID\<close>, from what \<open>os.Hostname\<close> and \<open>rand.Read\<close> return (\<open>None\<close>: an error).
\<close>

definition generateDeviceID :: "string option \<Rightarrow> byte list option \<Rightarrow> string option" where
  "generateDeviceID host random =
     (let hostname = (case host of None \<Rightarrow> ''unknown'' | Some n \<Rightarrow> n)
      in case random of
           None \<Rightarrow> None
         | Some randomBytes \<Rightarrow>
             let hash = sha256 (bytes_of_string (hostname @ hex_encode randomBytes))
             in Some (''dev-'' @ base64_url (take 8 hash)))"

definition New :: "string option \<Rightarrow> byte list option \<Rightarrow> agent_config \<Rightarrow> agent option" where
  "New host random cfg =
     (let cfg1 = (if cfg_ServerURL cfg = [] then cfg\<lparr>cfg_ServerURL := DefaultSignalURL\<rparr> else cfg);
          cfg2 = (if cfg_DeviceName cfg1 = [] then cfg1\<lparr>cfg_DeviceName := ''cloudbridge-agent''\<rparr> else cfg1)
      in map_option (\<lambda>d. \<lparr>ag_config = cfg2, ag_deviceID = d, ag_token = [], ag_conn = None, ag_done = False\<rparr>)
           (generateDeviceID host random))"

definition getPlatform :: string where "getPlatform = ''linux''"

section \<open>Messages\<close>

text \<open>\<open>a.conn.WriteMessage\<close>: on a nil connection a panic, \<open>None\<close>.\<close>

definition agent_write :: "string \<Rightarrow> agent \<Rightarrow> (string option \<times> agent) option" where
  "agent_write msg a =
     (case ag_conn a of
        None \<Rightarrow> None
      | Some c \<Rightarrow> (case ws_write msg c of (e, c') \<Rightarrow> Some (e, a\<lparr>ag_conn := Some c'\<rparr>)))"

definition register_payload :: "agent \<Rightarrow> RegisterPayload" where
  "register_payload a =
     \<lparr>reg_DeviceID = ag_deviceID a, reg_DeviceName = cfg_DeviceName (ag_config a),
      reg_Platform = (if cfg_Platform (ag_config a) \<noteq> [] then cfg_Platform (ag_config a) else getPlatform),
      reg_Version = cfg_Version (ag_config a), reg_PublicKey = []\<rparr>"

definition register :: "agent \<Rightarrow> (string option \<times> agent) option" where
  "register a = agent_write (Encode MsgTypeRegister (reg_json (register_payload a))) a"

definition heartbeat_text :: "int \<Rightarrow> string" where
  "heartbeat_text now = Encode MsgTypeHeartbeat (hb_json \<lparr>hb_Timestamp = CurrentTimestampMillis now\<rparr>)"

definition handleRegisterAck :: "string \<Rightarrow> agent \<Rightarrow> agent" where
  "handleRegisterAck raw a =
     (case Decode (Some rack_fields) raw rack_zero of
        Inl _ \<Rightarrow> a
      | Inr (_, ack) \<Rightarrow> a\<lparr>ag_token := rack_Token ack\<rparr>)"

definition accept_text :: "string \<Rightarrow> string" where
  "accept_text sid = Encode MsgTypeConnectResponse
     (cresp_json \<lparr>cresp_SessionID = sid, cresp_Accepted = True, cresp_Reason = []\<rparr>)"

text \<open>A failed write is only logged.\<close>

definition agent_handleConnectRequest :: "string \<Rightarrow> agent \<Rightarrow> agent option" where
  "agent_handleConnectRequest raw a =
     (case Decode (Some creq_fields) raw creq_zero of
        Inl _ \<Rightarrow> Some a
      | Inr (_, req) \<Rightarrow> map_option snd (agent_write (accept_text (creq_SessionID req)) a))"

text \<open>The body of \<open>readMessages\<close>: the messages of other types are only logged.\<close>

definition handle_incoming :: "string \<Rightarrow> agent \<Rightarrow> agent option" where
  "handle_incoming msg a =
     (case Decode None msg () of
        Inl _ \<Rightarrow> Some a
      | Inr (msgType, _) \<Rightarrow>
          if msgType = MsgTypeRegisterAck then Some (handleRegisterAck msg a)
          else if msgType = MsgTypeConnectRequest then agent_handleConnectRequest msg a
          else Some a)"

section \<open>One connection\<close>

datatype agent_event =
    Received string
  | Tick int              \<comment> \<open>the heartbeat ticker, at that time\<close>
  | ReadFails string
  | Cancelled             \<comment> \<open>the context is cancelled\<close>

text \<open>
  \<open>readMessages\<close> and \<open>heartbeatLoop\<close> side by side, over the events of a connection:
  \<open>beating\<close> says whether the heartbeat goroutine still runs. The reader sits in \<open>ReadMessage\<close>
  and looks at the context only between messages. The result is what \<open>readMessages\<close> returns
  (\<open>None\<close> for nil), or \<open>Waits\<close> when the events are used up and it still waits for a message;
  an outer \<open>None\<close> is a panic.
\<close>

datatype conn_result = Waits | Returns "string option"

fun readMessages :: "agent_event list \<Rightarrow> bool \<Rightarrow> bool \<Rightarrow> agent \<Rightarrow> (conn_result \<times> agent) option" where
  "readMessages [] beating cancelled a = Some (Waits, a)"
| "readMessages (Received msg # es) beating cancelled a =
     (case handle_incoming msg a of
        None \<Rightarrow> None
      | Some a' \<Rightarrow> if cancelled then Some (Returns (Some ''context canceled''), a') else readMessages es beating cancelled a')"
| "readMessages (Tick now # es) beating cancelled a =
     (if beating \<and> \<not> cancelled
      then (case agent_write (heartbeat_text now) a of
              None \<Rightarrow> None
            | Some (Some e, a') \<Rightarrow> readMessages es False cancelled a'
            | Some (None, a') \<Rightarrow> readMessages es beating cancelled a')
      else readMessages es beating cancelled a)"
| "readMessages (ReadFails e # es) beating cancelled a = Some (Returns (Some (''read: '' @ e)), a)"
| "readMessages (Cancelled # es) beating cancelled a = readMessages es beating True a"

text \<open>\<open>connect\<close>, given what dialling returned and the events of the connection.\<close>

definition close_ws :: "agent \<Rightarrow> agent" where
  "close_ws a = a\<lparr>ag_conn := map_option (\<lambda>c. c\<lparr>ws_closed := True\<rparr>) (ag_conn a)\<rparr>"

definition agent_connect ::
  "string + ws_conn \<Rightarrow> agent_event list \<Rightarrow> bool \<Rightarrow> agent \<Rightarrow> (conn_result \<times> agent) option" where
  "agent_connect dialled events cancelled a =
     (case dialled of
        Inl e \<Rightarrow> Some (Returns (Some (''dial: '' @ e)), a)
      | Inr c \<Rightarrow>
          (case register (a\<lparr>ag_conn := Some c\<rparr>) of
             None \<Rightarrow> None
           | Some (Some e, a1) \<Rightarrow> Some (Returns (Some (''register: '' @ e)), close_ws a1)
           | Some (None, a1) \<Rightarrow>
               if cancelled then Some (Returns (Some ''context canceled''), a1) else readMessages events True False a1))"

definition agent_Close :: "agent \<Rightarrow> agent option" where
  "agent_Close a = (if ag_done a then None else Some (close_ws (a\<lparr>ag_done := True\<rparr>)))"

section \<open>Reconnecting\<close>

text \<open>
  \<open>Run\<close> as a machine: at the top of the outer loop, in the wait of the inner one, or
  returned. A step is told whether the context is cancelled, whether the agent is
  closed, and whether \<open>connect\<close> returned nil. (Of a cancelled context and a closed agent
  seen at once, \<open>select\<close> may take either; here the context goes first.)
\<close>

datatype run_at = Top | Waiting nat | Returned "string option"

record run_input =
  in_cancelled :: bool
  in_done :: bool
  in_connected :: bool

definition next_delay :: "nat \<Rightarrow> nat" where
  "next_delay d = (if ReconnectMaxDelay < 2 * d then ReconnectMaxDelay else 2 * d)"

fun run_step :: "run_input \<Rightarrow> run_at \<Rightarrow> run_at" where
  "run_step i Top =
     (if in_cancelled i then Returned (Some ''context canceled'')
      else if in_done i then Returned None
      else Waiting ReconnectBaseDelay)"
| "run_step i (Waiting d) =
     (if in_cancelled i then Returned (Some ''context canceled'')
      else if in_connected i then Top
      else Waiting (next_delay d))"
| "run_step i (Returned e) = Returned e"

definition HealthHandler :: "http_response \<Rightarrow> http_response" where
  "HealthHandler r = r\<lparr>resp_status := 200, resp_body := resp_body r @ ''ok''\<rparr>"

section \<open>Properties\<close>

lemma generateDeviceID_shape:
  assumes "generateDeviceID host random = Some d"
  shows "length d = 15" "take 4 d = ''dev-''" "list_all url_char (drop 4 d)"
  using assms by (auto simp: generateDeviceID_def Let_def length_base64_url base64_url_chars split: option.splits)

lemma url_char_ascii: "url_char c \<Longrightarrow> code c < 0x80"
  by (auto simp: url_char_def)

lemma deviceID_chars:
  assumes d: "generateDeviceID host random = Some d"
  shows "list_all (\<lambda>c. code c < 0x80) d"
proof -
  have "d = ''dev-'' @ drop 4 d" using generateDeviceID_shape(2) [OF d] append_take_drop_id [of 4 d] by metis
  moreover have "list_all (\<lambda>c. code c < 0x80) (drop 4 d)"
    using generateDeviceID_shape(3) [OF d] by (auto simp: list_all_iff intro: url_char_ascii)
  moreover have "list_all (\<lambda>c. code c < 0x80) (''dev-'' @ xs)" if "list_all (\<lambda>c. code c < 0x80) xs" for xs
    using that by simp
  ultimately show ?thesis by metis
qed

lemma deviceID_ascii: "generateDeviceID host random = Some d \<Longrightarrow> valid_utf8 d \<and> d \<noteq> []"
  using deviceID_chars [of host random d] generateDeviceID_shape(1) [of host random d] by (auto simp: ascii_valid)

lemma readMessages_error: "readMessages es beating cancelled a = Some (Returns r, a') \<Longrightarrow> r \<noteq> None"
  by (induction es beating cancelled a rule: readMessages.induct) (auto split: option.splits if_splits prod.splits)

text \<open>
  A cancelled context is noticed only when a message comes: until then the agent waits, and
  it has stopped its heartbeats, so that no acknowledgment can come either.
\<close>

lemma cancelled_agent_waits: "readMessages (Cancelled # map Tick ts) beating False a = Some (Waits, a)"
  by (induction ts) simp_all

text \<open>
  C30: the agent reconnects for ever, less and less often. \<open>connect\<close> never returns nil: whenever it
  returns, with whatever connection and messages, it returns an error. So after its first
  connection has ended \<open>Run\<close> never leaves its inner loop except by cancellation of the
  context: the k-th wait lasts \<open>min (2 ^ k) 30\<close> seconds, however long the
  connections in between lasted, and closing the agent is never noticed.
\<close>

theorem reconnect_backoff:
  assumes "\<not> in_cancelled i0" "\<not> in_done i0" "\<forall>i\<in>set inputs. \<not> in_cancelled i \<and> \<not> in_connected i"
  shows "(\<forall>dialled events cancelled a r a'. agent_connect dialled events cancelled a = Some (Returns r, a') \<longrightarrow> r \<noteq> None)
    \<and> fold run_step (i0 # inputs) Top = Waiting (min (2 ^ length inputs) ReconnectMaxDelay)
    \<and> (\<forall>i. fold run_step (i0 # inputs @ [i]) Top \<noteq> Returned None)"
proof -
  have connect: "r \<noteq> None" if "agent_connect dialled events cancelled a = Some (Returns r, a')" for dialled events cancelled a r a'
    using that readMessages_error by (auto simp: agent_connect_def split: sum.splits option.splits prod.splits if_splits)
  have next_min: "next_delay (min d ReconnectMaxDelay) = min (2 * d) ReconnectMaxDelay" for d
    by (simp add: next_delay_def ReconnectMaxDelay_def min_def)
  have "fold run_step is (Waiting (min d ReconnectMaxDelay)) = Waiting (min (d * 2 ^ length is) ReconnectMaxDelay)"
    if "\<forall>i\<in>set is. \<not> in_cancelled i \<and> \<not> in_connected i" for "is" d
    using that
  proof (induction "is" arbitrary: d)
    case (Cons i rest)
    then show ?case using Cons.IH [of "2 * d"] by (simp add: next_min mult.assoc mult.left_commute)
  qed simp
  from this [OF assms(3), of ReconnectBaseDelay]
  have waits: "fold run_step inputs (Waiting ReconnectBaseDelay) = Waiting (min (2 ^ length inputs) ReconnectMaxDelay)"
    by (simp add: ReconnectBaseDelay_def ReconnectMaxDelay_def)
  show ?thesis using connect waits assms(1,2) by auto
qed

theorem reconnect_backoff_witness:
  "fold run_step (replicate 7 \<lparr>in_cancelled = False, in_done = False, in_connected = False\<rparr>) Top = Waiting 30"
  using reconnect_backoff [of "\<lparr>in_cancelled = False, in_done = False, in_connected = False\<rparr>"
      "replicate 6 \<lparr>in_cancelled = False, in_done = False, in_connected = False\<rparr>"]
  by (simp add: ReconnectMaxDelay_def numeral_eq_Suc)

section \<open>Agent and server together\<close>

definition ack_text :: "string \<Rightarrow> string" where
  "ack_text d = Encode MsgTypeRegisterAck (rack_json \<lparr>rack_Token = ''token-'' @ d, rack_ExpiresAt = 0\<rparr>)"

lemma register_effect:
  assumes r: "reg_ok r" and c: "IsAgent (client_at (hub_of w) c)" "has_room (Suc n) c w"
  shows "HandleMessage now c (Encode MsgTypeRegister (reg_json r)) w =
    Some (deliver c (ack_text (reg_DeviceID r)) (w\<lparr>hub_of := RegisterDevice now c (device_of r) (hub_of w)\<rparr>))"
proof -
  let ?w = "w\<lparr>hub_of := RegisterDevice now c (device_of r) (hub_of w)\<rparr>"
  have "has_room (Suc n) c ?w" using c(2) by (auto simp: has_room_def RegisterDevice_eq Let_def split: option.split)
  from try_send_room [OF this]
  have "send_best c m ?w = Some (deliver c m ?w)" for m
    by (simp only: send_best_def option.map prod.case deliver_frame)
  moreover have "HandleMessage now c (Encode MsgTypeRegister (reg_json r)) w = handleRegister now c (Some (reg_json r)) w"
    by (simp add: HandleMessage_def reg.envelope_Encode [OF msg_valid(1) r] dispatch_def)
  ultimately show ?thesis using c(1) by (simp add: handleRegister_def reg.raw_json [OF r] Let_def ack_text_def)
qed

lemma agent_takes_ack:
  assumes "valid_utf8 (''token-'' @ d)"
  shows "handle_incoming (ack_text d) a = Some (a\<lparr>ag_token := ''token-'' @ d\<rparr>)"
proof -
  let ?p = "\<lparr>rack_Token = ''token-'' @ d, rack_ExpiresAt = 0\<rparr>"
  have ok: "rack_ok ?p" using assms by (simp add: rack_ok_def int64_def)
  have t: "valid_utf8 MsgTypeRegisterAck" by (simp add: msg_types ascii_valid)
  have "Decode None (ack_text d) () = Inr (MsgTypeRegisterAck, ())"
    unfolding ack_text_def Decode_def rack.envelope_Encode [OF t ok] by simp
  moreover have "handleRegisterAck (ack_text d) a = a\<lparr>ag_token := ''token-'' @ d\<rparr>"
    unfolding handleRegisterAck_def ack_text_def rack.Decode_Encode [OF t ok] by simp
  ultimately show ?thesis by (simp add: handle_incoming_def)
qed

lemma agent_accepts:
  assumes q: "creq_ok q" and c: "ag_conn a = Some c" "\<not> ws_closed c" "ws_room c = None"
  shows "handle_incoming (Encode MsgTypeConnectRequest (creq_json q)) a =
    Some (a\<lparr>ag_conn := Some (c\<lparr>ws_out := ws_out c @ [accept_text (creq_SessionID q)]\<rparr>)\<rparr>)"
proof -
  have "Decode None (Encode MsgTypeConnectRequest (creq_json q)) () = Inr (MsgTypeConnectRequest, ())"
    by (simp add: Decode_def creq.envelope_Encode [OF msg_valid(3) q])
  moreover have "MsgTypeConnectRequest \<noteq> MsgTypeRegisterAck" by (simp add: msg_types)
  ultimately show ?thesis
    using c by (simp add: handle_incoming_def agent_handleConnectRequest_def creq.Decode_Encode [OF msg_valid(3) q]
        agent_write_def ws_write_def)
qed

text \<open>
  C7: an agent and the server set up a connection for an app. The registration the agent
  writes on its fresh connection makes the server know its device; the acknowledgment the server then queues for it gives
  it its token. An app's request for the device is queued for the agent; what the agent writes
  when it reads that text is an acceptance of that session, and when the server handles it, the
  acceptance reaches the app and the agent is the other end of the app's session.
\<close>

theorem agent_serves_connection:
  assumes agent: "generateDeviceID host random = Some (ag_deviceID a)" "reg_ok (register_payload a)"
      "ag_conn a = Some ws" "\<not> ws_closed ws" "ws_room ws = None"
    and server: "IsAgent (client_at (hub_of w) c)" "has_room 2 c w" "has_room 1 p w"
      "cl_ID (client_at (hub_of w) p) \<noteq> cl_ID (client_at (hub_of w) c)"
    and q: "creq_ok q" "creq_DeviceID q = ag_deviceID a"
  shows "\<exists>hello ack request accept a1 a2 w1 w2 w3.
      register a = Some (None, a1) \<and> ag_conn a1 = Some (ws\<lparr>ws_out := ws_out ws @ [hello]\<rparr>)
    \<and> HandleMessage t1 c hello w = Some w1 \<and> FindClientByDevice (ag_deviceID a) (hub_of w1) = Some c
    \<and> Send (client_at (hub_of w1) c) = Send (client_at (hub_of w) c) @ [ack]
    \<and> handle_incoming ack a1 = Some a2 \<and> ag_token a2 = ''token-'' @ ag_deviceID a
    \<and> HandleMessage t2 p (Encode MsgTypeConnectRequest (creq_json q)) w1 = Some w2
    \<and> Send (client_at (hub_of w2) c) = Send (client_at (hub_of w) c) @ [ack, request]
    \<and> handle_incoming request a2 = Some (a2\<lparr>ag_conn := Some (ws\<lparr>ws_out := ws_out ws @ [hello, accept]\<rparr>)\<rparr>)
    \<and> HandleMessage t3 c accept w2 = Some w3
    \<and> Send (client_at (hub_of w3) p) = Send (client_at (hub_of w) p) @ [accept]
    \<and> GetPeer (creq_SessionID q) p (hub_of w3) (sm_of w3) = Some (Some c)"
proof -
  let ?d = "ag_deviceID a" and ?r = "register_payload a" and ?sid = "creq_SessionID q"
  let ?h = "RegisterDevice t1 c (device_of ?r) (hub_of w)"
  let ?resp = "\<lparr>cresp_SessionID = ?sid, cresp_Accepted = True, cresp_Reason = []\<rparr>"
  define ack where "ack = ack_text ?d"
  define hello where "hello = Encode MsgTypeRegister (reg_json ?r)"
  define request where "request = Encode MsgTypeConnectRequest (creq_json q)"
  define accept where "accept = accept_text ?sid"
  define w1 where "w1 = deliver c ack (w\<lparr>hub_of := ?h\<rparr>)"
  define sm2 where "sm2 = CreateSession t2 ?sid p (creq_DeviceID q) (creq_Protocols q) (hub_of w1) (sm_of w1)"
  define w2 where "w2 = deliver c request (w1\<lparr>sm_of := sm2\<rparr>)"
  define w3 where "w3 = deliver p accept (w2\<lparr>sm_of := snd (AcceptSession ?sid c (hub_of w2) (sm_of w2))\<rparr>)"
  define a1 where "a1 = a\<lparr>ag_conn := Some (ws\<lparr>ws_out := ws_out ws @ [hello]\<rparr>)\<rparr>"
  define a2 where "a2 = a1\<lparr>ag_token := ''token-'' @ ?d\<rparr>"
  have ne: "p \<noteq> c" using server(4) by blast
  have d: "valid_utf8 ?d" "?d \<noteq> []" "reg_DeviceID ?r = ?d" "dev_ID (device_of ?r) = ?d"
    using deviceID_ascii [OF agent(1)] by (simp_all add: register_payload_def device_of_def)
  have tok: "valid_utf8 (''token-'' @ ?d)"
    using generateDeviceID_shape [OF agent(1)] deviceID_chars [OF agent(1)] by (intro ascii_valid) (simp add: list_all_iff)
  have h: "Send (client_at ?h e) = Send (client_at (hub_of w) e)" "send_closed (client_at ?h e) = send_closed (client_at (hub_of w) e)"
    "cl_ID (client_at ?h e) = cl_ID (client_at (hub_of w) e)" "map_of (byDevice ?h) ?d = Some c" for e
    by (auto simp: RegisterDevice_eq Let_def d(4) split: option.split)
  have room: "has_room n e (w\<lparr>hub_of := ?h\<rparr>) = has_room n e w" for n e by (simp add: has_room_def h)
  have 0: "register a = Some (None, a1)" using agent(3-5) by (simp add: register_def agent_write_def ws_write_def a1_def hello_def)
  have 1: "HandleMessage t1 c hello w = Some w1"
    using register_effect [OF agent(2) server(1), of 1 t1] server(2) by (simp add: hello_def w1_def ack_def d(3) numeral_2_eq_2)
  have 2: "handle_incoming ack a1 = Some a2" unfolding ack_def a2_def by (rule agent_takes_ack [OF tok])
  have online: "map_of (byDevice (hub_of w1)) (creq_DeviceID q) = Some c" by (simp add: w1_def h(4) q(2))
  have 3: "HandleMessage t2 p request w1 = Some w2"
    using connect_request_online [OF q(1) online, of 0] server(2)
    by (simp add: request_def w2_def sm2_def w1_def has_room_deliver room numeral_2_eq_2)
  have 4: "handle_incoming request a2 = Some (a2\<lparr>ag_conn := Some (ws\<lparr>ws_out := ws_out ws @ [hello, accept]\<rparr>)\<rparr>)"
    using agent_accepts [OF q(1), of a2 "ws\<lparr>ws_out := ws_out ws @ [hello]\<rparr>"] agent(3-5) by (simp add: request_def a2_def a1_def accept_def)
  have sid: "cresp_ok ?resp" using q(1) by (simp add: cresp_ok_def creq_ok_def ascii_valid)
  have 5: "HandleMessage t3 c accept w2 = Some w3"
    using connect_response_accepted [OF sid, of 0 p w2 "next_session (sm_of w)" c t3] server(3,4) ne
    by (simp add: accept_def accept_text_def w3_def w2_def w1_def sm2_def has_room_deliver room h(3))
  have "GetPeer ?sid p (hub_of w3) (sm_of w3) = Some (Some c)"
    by (simp add: w3_def w2_def w1_def sm2_def GetPeer_def AcceptSession_def)
  moreover have "Send (client_at (hub_of w1) c) = Send (client_at (hub_of w) c) @ [ack]"
    "Send (client_at (hub_of w2) c) = Send (client_at (hub_of w) c) @ [ack, request]"
    "Send (client_at (hub_of w3) p) = Send (client_at (hub_of w) p) @ [accept]"
    using ne by (simp_all add: w1_def w2_def w3_def Send_deliver h(1))
  moreover have "FindClientByDevice ?d (hub_of w1) = Some c" using online q(2) by (simp add: FindClientByDevice_def)
  moreover have "ag_conn a1 = Some (ws\<lparr>ws_out := ws_out ws @ [hello]\<rparr>)" "ag_token a2 = ''token-'' @ ?d"
    by (simp_all add: a1_def a2_def)
  ultimately show ?thesis
    using 0 1 2 3 4 5 unfolding request_def by blast
qed

text \<open>An agent with the default configuration, on a host without a name and with no random bytes.\<close>

definition demo_agent :: agent where
  "demo_agent = \<lparr>ag_config = agent_DefaultConfig, ag_deviceID = the (generateDeviceID None (Some [])), ag_token = [],
     ag_conn = Some \<lparr>ws_out = [], ws_room = None, ws_closed = False\<rparr>, ag_done = False\<rparr>"

theorem agent_serves_connection_witness:
  "\<exists>hello ack a1 a2 w1. HandleMessage 5 3 hello demo = Some w1
    \<and> FindClientByDevice (ag_deviceID demo_agent) (hub_of w1) = Some 3
    \<and> handle_incoming ack a1 = Some a2 \<and> ag_token a2 = ''token-'' @ ag_deviceID demo_agent"
proof -
  let ?q = "\<lparr>creq_SessionID = ''s1'', creq_DeviceID = ag_deviceID demo_agent, creq_Protocols = None\<rparr>"
  have d: "generateDeviceID None (Some []) = Some (ag_deviceID demo_agent)"
    by (simp add: demo_agent_def generateDeviceID_def Let_def)
  have id: "valid_utf8 (ag_deviceID demo_agent)" using deviceID_ascii [OF d] by simp
  then have q: "creq_ok ?q" by (simp add: creq_ok_def strings_ok_def ascii_valid)
  have r: "reg_ok (register_payload demo_agent)"
    using id by (simp add: register_payload_def reg_ok_def ascii_valid getPlatform_def)
      (simp add: demo_agent_def agent_DefaultConfig_def ascii_valid)
  have "IsAgent (client_at (hub_of demo) 3)" "cl_ID (client_at (hub_of demo) 2) \<noteq> cl_ID (client_at (hub_of demo) 3)"
    by (simp_all add: demo_hub_simps new_client_def generateClientID_def)
  moreover have "ag_conn demo_agent = Some \<lparr>ws_out = [], ws_room = None, ws_closed = False\<rparr>" by (simp add: demo_agent_def)
  moreover have "has_room 2 3 demo" "has_room 1 2 demo" using demo_room [of 2] demo_room [of 1] by (simp_all add: SendBufferSize_def)
  ultimately show ?thesis
    using agent_serves_connection [OF d r, of "\<lparr>ws_out = [], ws_room = None, ws_closed = False\<rparr>" demo 3 2 ?q 5 6 7] q
    by (metis (no_types, lifting) ConnectRequestPayload.select_convs(2) ws_conn.select_convs(2,3))
qed

end
