(* ===== verification/Spec2Isabelle.thy ===== *)
theory Spec2Isabelle
  imports Relay_Completion Stun Signal_Properties Device_API Shell Agent
begin

text \<open>
  A verification library for the Go code of cloudbridge under \<open>src/internal\<close>. An agent on a
  device and a client app find each other through a signal server (WebSocket, JSON messages),
  look up their public addresses at a STUN server (UDP), and then talk through a relay server (TCP)
  that pairs two connections of one session and copies bytes between them. On that connection the
  two ends multiplex streams in frames; the agent proxies the frames to a shell.

  The theories, in the order of the imports, and what they model:

  \<open>Prelude\<close>: bytes and Go strings, the big-endian codecs of \<open>encoding/binary\<close>, decimal printing,
  rule collections, and the locales \<open>transition_system\<close> (an invariant kept by every step holds in
  every reachable state), \<open>codec\<close> (a self-delimiting encoding) and \<open>go_map\<close> (the laws of a Go map).

  \<open>GoIO\<close>: \<open>net.Conn\<close> as the pieces in which bytes arrive and what has been written, \<open>io.ReadFull\<close>,
  \<open>bufio.Reader\<close>. The locales \<open>io_reader\<close> and \<open>io_byte_reader\<close> are Go's interfaces; both are
  interpreted on the connection and on the buffered reader.

  \<open>Frame\<close> (\<open>protocol/frame.go\<close>): records and constants as in the source, \<open>MarshalBinary\<close>,
  \<open>UnmarshalBinary\<close>, \<open>ReadFrom\<close>, \<open>WriteTo\<close>. Round trips; both decoders accept exactly the encodings;
  reading does not depend on the segmentation of the stream; all errors.

  \<open>Handshake\<close> (\<open>relay/handshake.go\<close>, \<open>relay/client.go\<close>): the four handshake routines and
  \<open>ConnectToRelay\<close>, with the read-ahead of the \<open>bufio.Reader\<close> that is thrown away.

  \<open>Relay_Session\<close>, \<open>Relay_Server\<close> (\<open>relay/session.go\<close>, \<open>relay/server.go\<close>): session methods are functions
  under the session's mutex; the server is an inductive step relation over handlers with a program
  counter and relaying goroutines, one step per segment between two points where another
  goroutine can interfere. \<open>Relay_Properties\<close>: order and isolation of the relayed bytes, the bound on
  sessions, the pairing of two clients, progress of a handler, and the interleavings that
  go wrong. \<open>Relay_Completion\<close>: the relaying goroutine ends, and what it has delivered then.
  \<open>transition_system\<close> is interpreted on the server.

  \<open>Stun\<close> (\<open>stun/server.go\<close>): \<open>handleMessage\<close> and \<open>buildBindingResponse\<close>, checked against a reader of
  responses after RFC 5389; the serving goroutine and \<open>Close\<close>, which interleave: receiving and answering
  are two steps, and so are the closing of the channel and of the socket.

  \<open>Json\<close>, \<open>Messages\<close> (\<open>protocol/messages.go\<close>): printing and reading of JSON as \<open>encoding/json\<close> does it, the
  envelope and every payload; the locale \<open>payload_codec\<close> gives the round trip of a payload from that of its
  JSON form and is interpreted on every payload type.

  \<open>Hub\<close>, \<open>Signal_Session\<close>, \<open>Signal_Handler\<close>, \<open>Signal_Server\<close> (\<open>signal/hub.go\<close>, \<open>session.go\<close>, \<open>handler.go\<close>,
  \<open>server.go\<close>): clients and sessions are shared by pointer and live in stores addressed by
  references; a \<open>Send\<close> channel is a queue of at most 256 messages and a closed flag; a send on a closed channel is the
  panic \<open>None\<close>. A handler is a function (\<open>HandleMessage\<close>) and, for the server, a sequence of segments, each under
  one lock or sending on one channel (\<open>begin_message\<close>, \<open>handle_step\<close>); run in a row the segments are the
  function. The server is a step relation over the goroutines of its clients, one segment a
  step. \<open>Signal_Invariant\<close> states the invariant that ties the tables to the registered clients, which
  holds in every regular run, and the one that ties channels and connections to the goroutines, which holds in
  every run; \<open>Signal_Properties\<close> holds the behaviour of the handlers, of the writers and of the tables, and the
  histories in which the server fails.

  \<open>GoTime\<close>, \<open>Device_API\<close> (\<open>api/device.go\<close>): the REST handlers as functions of the tables and the
  response; what they answer agrees with the tables that the signal server keeps.

  \<open>Tunnel\<close> (\<open>tunnel/relay.go\<close>, \<open>tunnel/tunnel.go\<close>): the relay transport, the tunnel and the in-memory stream. The locale
  \<open>frame_transport\<close> is the contract of the \<open>Transport\<close> interface, interpreted on the relay transport.

  \<open>Pump\<close>, \<open>Agent_Tunnel\<close> (\<open>agent/tunnel.go\<close>): a proxy is a pair of goroutines, each a loop of turns, and
  \<open>ProxyData\<close> and \<open>ProxyDataFrames\<close> are its two instances. The locale \<open>two_way\<close> (a sublocale of \<open>transition_system\<close>)
  proves that every schedule ends and what it leaves behind; it is interpreted on \<open>io.Copy\<close> and
  on the frame loops.

  \<open>Digest\<close>, \<open>Agent\<close> (\<open>agent/register.go\<close>): the device id, registration, the answers to connection requests, heartbeats,
  and reconnecting with its delays; then the agent composed with the signal server.

  \<open>Shell\<close> (\<open>agent/proxy/shell.go\<close>): choice of the shell, the session on a terminal and its single \<open>Close\<close>.

  How the code is represented. Structs are records, enumerations datatypes, integers of a
  width words; \<open>int\<close> is unbounded where the source only counts with it. Every error return is a value of
  an error type, every panic a \<open>None\<close> or a state of the goroutine that panicked. A mutex makes the
  section it protects one step; what the code does outside a lock is a step of its own.

  Bounds. Recursion that is not structural runs on fuel or has a measure. The JSON parser gets twice the
  text's length and one, which is always enough (\<open>parse_json_total\<close>); nesting ends at 10000 as in
  Go; \<open>bufio.Reader\<close> gives up after 100 empty reads, as Go's; a relay handler ends within five
  segments, a message handler within four; a relaying goroutine within two steps per byte and five more; a proxy ends within as many turns as there are pieces to read, and two more; the
  delay between two attempts of the agent stays within 30 seconds.

  Not modelled. The libraries the source only calls: the WebSocket connection and the pseudo-terminal
  (their results are arguments), listening sockets and \<open>net/http\<close>'s routing, logging, the
  randomness of \<open>crypto/rand\<close> (an argument). Deadlines are failures of a read. The order in which Go
  iterates over a map is that of the table. The clean-ups that hold a lock throughout (the loop of the relay's
  \<open>Close\<close>, \<open>RemoveClientSessions\<close>) are one step. The programs under \<open>cmd\<close> (\<open>cmd/server\<close>, \<open>cmd/agent\<close>,
  \<open>cmd/webproxy\<close>) are not modelled: they parse flags, start the parts above and wire library handlers
  together. Flutter, web and test code is left out.
\<close>

end
